theory Spec2Isabelle
  imports Main "HOL-Library.Word"
begin

unbundle bit_operations_syntax

section \<open>Host integer types and memory\<close>

text \<open>
  The emulator is a user-mode program that maps guest addresses to identical host
  addresses. The host is taken to be a 64-bit little-endian machine, so \<open>uintptr_t\<close>,
  \<open>size_t\<close> and \<open>uint64_t\<close> are 64-bit words whose arithmetic wraps around, and
  memory is an array of bytes indexed by such a word. An access to an address that no
  mapping covers is undefined in the program; the model reads and writes the byte array
  all the same.
\<close>

type_synonym uintptr = "64 word"
type_synonym size_t = "64 word"
type_synonym memory = "uintptr \<Rightarrow> 8 word"

text \<open>\<open>load_le m a n\<close> is the little-endian value of the \<open>n\<close> bytes at \<open>a\<close>.\<close>

primrec load_le :: "memory \<Rightarrow> uintptr \<Rightarrow> nat \<Rightarrow> 64 word" where
  "load_le m a 0 = 0"
| "load_le m a (Suc n) = ucast (m a) OR push_bit 8 (load_le m (a + 1) n)"

text \<open>
  \<open>store_le m a n v\<close> writes the low \<open>n\<close> bytes of \<open>v\<close> at \<open>a\<close>, least significant
  byte first. The test \<open>x - a < of_nat n\<close> is unsigned: it holds for the \<open>n\<close> addresses
  from \<open>a\<close> on, also when they wrap past the top of the address space.
\<close>

definition store_le :: "memory \<Rightarrow> uintptr \<Rightarrow> nat \<Rightarrow> 64 word \<Rightarrow> memory" where
  "store_le m a n v =
     (\<lambda>x. if x - a < of_nat n then ucast (drop_bit (8 * unat (x - a)) v) else m x)"

section \<open>Instruction codec (riscv-codec.h)\<close>

subsection \<open>Decoded instruction\<close>

record decode =
  imm :: "32 word"
  rv_inst :: "32 word"
  rvc_inst :: "16 word"
  op :: "8 word"
  codec :: "8 word"

text \<open>The constructor \<open>decode()\<close> zeroes every member.\<close>

definition decode_init :: decode where
  "decode_init = \<lparr>imm = 0, rv_inst = 0, rvc_inst = 0, op = 0, codec = 0\<rparr>"

subsection \<open>Instruction length\<close>

definition inst_length :: "64 word \<Rightarrow> size_t" where
  "inst_length inst =
     (if inst AND 0b11 \<noteq> 0b11 then 2
      else if inst AND 0b11100 \<noteq> 0b11100 then 4
      else if inst AND 0b111111 = 0b011111 then 6
      else if inst AND 0b1111111 = 0b0111111 then 8
      else 0)"

subsection \<open>Instruction fetch\<close>

text \<open>
  \<open>inst_fetch\<close> returns the instruction word and, through its pointer argument, the
  length: the model returns the pair. \<open>htole32\<close> and \<open>htole16\<close> of a host load are the
  little-endian values of the bytes.
\<close>

definition inst_fetch :: "memory \<Rightarrow> uintptr \<Rightarrow> 64 word \<times> size_t" where
  "inst_fetch m addr =
     (let inst = take_bit 32 (load_le m addr 4) in
      if inst AND 0b11 \<noteq> 0b11 then (inst AND 0xffff, 2)
      else if inst AND 0b11100 \<noteq> 0b11100 then (inst, 4)
      else if inst AND 0b111111 = 0b011111
        then (inst OR push_bit 32 (take_bit 16 (load_le m (addr + 4) 2)), 6)
      else if inst AND 0b1111111 = 0b0111111
        then (inst OR push_bit 32 (take_bit 32 (load_le m (addr + 4) 4)), 8)
      else (0, 8))"

subsection \<open>Decode\<close>

text \<open>
  \<open>decode_inst\<close> writes into the record it is handed. The opcode decoder
  \<open>decode_inst_op\<close> and the operand decoder \<open>decode_inst_type\<close> are generated headers
  (riscv-decode.h, riscv-operands.h) that are not part of the sources at hand; they are
  parameters.
\<close>

definition decode_inst ::
  "(64 word \<Rightarrow> 8 word) \<Rightarrow> (decode \<Rightarrow> 64 word \<Rightarrow> decode) \<Rightarrow> decode \<Rightarrow> 64 word \<Rightarrow> decode" where
  "decode_inst decode_inst_op decode_inst_type dec inst =
     decode_inst_type (dec\<lparr>rv_inst := ucast inst, op := decode_inst_op inst\<rparr>) inst"

section \<open>The host as the emulator sees it\<close>

text \<open>
  Everything the emulator does to its host is recorded as an event, in order: host calls,
  diagnostics written by \<open>debug\<close> and lines printed by the logging options. What the
  host answers is not decided by the program; it is a parameter, a function of the events
  so far and of the arguments of the call.
\<close>

datatype 'a host_result = Success 'a | Failure nat
  \<comment> \<open>a host call that fails returns its failure value and sets \<open>errno\<close> to the number given\<close>

datatype backing = Anonymous | File_backed string uintptr

text \<open>
  \<open>format_inst\<close> prints the instruction at an address in hexadecimal, with a number of
  digits that depends on the length, or the text \<open>(invalid)\<close>.
\<close>

datatype hex_inst = Hex nat "64 word" | Invalid

datatype diag =
    Brk_mmap_error nat
  | Brk_mmap uintptr uintptr
  | Sp_mmap uintptr uintptr
  | Elf_mmap uintptr uintptr "32 word"
  | Illegal_instruction uintptr hex_inst

datatype panic =
    Unknown_syscall nat
  | Map_stack_mmap nat
  | Map_executable_open string nat
  | Map_executable_mmap string nat

datatype event =
    Host_open string
  | Host_close "32 word"
  | Host_write "32 word" uintptr size_t
  | Host_fstat "32 word"
  | Host_mmap uintptr size_t "32 word" backing
  | Host_munmap uintptr size_t
  | Debug diag
  | Print_int_registers "nat list"
  | Print_disassembly uintptr hex_inst decode

text \<open>The fields of the host's \<open>struct stat\<close> that the proxy reads, each widened to 64 bits.\<close>

record host_stat =
  st_dev :: "64 word"
  st_ino :: "64 word"
  st_mode :: "64 word"
  st_nlink :: "64 word"
  st_uid :: "64 word"
  st_gid :: "64 word"
  st_rdev :: "64 word"
  st_size :: "64 word"
  st_blocks :: "64 word"
  st_blksize :: "64 word"
  st_atim_sec :: "64 word"
  st_atim_nsec :: "64 word"
  st_mtim_sec :: "64 word"
  st_mtim_nsec :: "64 word"
  st_ctim_sec :: "64 word"
  st_ctim_nsec :: "64 word"

record host =
  page_size :: uintptr
  h_open :: "event list \<Rightarrow> string \<Rightarrow> 32 word host_result"
  h_close :: "event list \<Rightarrow> 32 word \<Rightarrow> unit host_result"
  h_write :: "event list \<Rightarrow> 32 word \<Rightarrow> uintptr \<Rightarrow> size_t \<Rightarrow> size_t host_result"
  h_fstat :: "event list \<Rightarrow> 32 word \<Rightarrow> host_stat host_result"
  h_mmap :: "event list \<Rightarrow> uintptr \<Rightarrow> size_t \<Rightarrow> 32 word \<Rightarrow> backing \<Rightarrow> unit host_result"
  h_file :: "string \<Rightarrow> uintptr \<Rightarrow> 8 word"

text \<open>Constants of the host's headers (\<open>sys/mman.h\<close>, \<open>errno.h\<close>, \<open>elf.h\<close>).\<close>

definition PROT_READ :: "32 word" where "PROT_READ = 1"
definition PROT_WRITE :: "32 word" where "PROT_WRITE = 2"
definition PROT_EXEC :: "32 word" where "PROT_EXEC = 4"
definition ENOMEM :: nat where "ENOMEM = 12"
definition PF_X :: "32 word" where "PF_X = 1"
definition PF_W :: "32 word" where "PF_W = 2"
definition PF_R :: "32 word" where "PF_R = 4"
definition PT_LOAD :: "32 word" where "PT_LOAD = 1"

text \<open>
  A mapping that succeeds replaces what was at the addresses it covers: zero bytes for an
  anonymous mapping, the bytes of the file from the given offset for a file-backed one.
\<close>

definition mapped :: "host \<Rightarrow> memory \<Rightarrow> uintptr \<Rightarrow> size_t \<Rightarrow> backing \<Rightarrow> memory" where
  "mapped h m addr len b =
     (\<lambda>x. if x - addr < len
          then (case b of Anonymous \<Rightarrow> 0 | File_backed f off \<Rightarrow> h_file h f (off + (x - addr)))
          else m x)"

section \<open>Processor state (riscv-test-emulate.cc, \<open>riscv_processor_base\<close>)\<close>

text \<open>
  The register file and the program counter are XLEN bits wide; XLEN is the type
  parameter \<open>'x\<close>. \<open>mem\<close> is the memory of the host process, which the guest addresses
  directly, and \<open>events\<close> is what the process has done to its host so far.
\<close>

record (overloaded) 'x riscv_processor_base =
  pc :: "'x word"
  ireg :: "nat \<Rightarrow> 'x word"
  flags :: "32 word"
  mapped_segments :: "(uintptr \<times> size_t) list"
  heap_begin :: uintptr
  heap_end :: uintptr
  log_registers :: bool
  log_instructions :: bool
  mem :: memory
  events :: "event list"

text \<open>Register numbers of the calling convention: \<open>sp\<close> is x2, \<open>a0\<close> to \<open>a7\<close> are x10 to x17.\<close>

definition riscv_ireg_sp :: nat where "riscv_ireg_sp = 2"
definition riscv_ireg_a0 :: nat where "riscv_ireg_a0 = 10"
definition riscv_ireg_a1 :: nat where "riscv_ireg_a1 = 11"
definition riscv_ireg_a2 :: nat where "riscv_ireg_a2 = 12"
definition riscv_ireg_a7 :: nat where "riscv_ireg_a7 = 17"
definition ireg_count :: nat where "ireg_count = 32"

text \<open>
  Modelled from the spec: the register type and its conversions are declared in
  riscv-processor.h, which is not part of the sources at hand. A register is an
  XLEN-wide word; read as a host integer it is that word, extended with zeros where the
  host type is wider and cut to the low bits where it is narrower, and a host integer
  stored into a register is cut to its low XLEN bits. For XLEN = 64 both are the identity
  on \<open>uintptr_t\<close>.
\<close>

definition ireg_uintptr :: "'x::len word \<Rightarrow> uintptr" where
  "ireg_uintptr r = ucast r"

definition ireg_int :: "'x::len word \<Rightarrow> 32 word" where
  "ireg_int r = ucast r"

definition uintptr_ireg :: "uintptr \<Rightarrow> 'x::len word" where
  "uintptr_ireg v = ucast v"

definition set_ireg ::
  "nat \<Rightarrow> 'x::len word \<Rightarrow> 'x riscv_processor_base \<Rightarrow> 'x riscv_processor_base" where
  "set_ireg r v proc = proc\<lparr>ireg := (ireg proc)(r := v)\<rparr>"

definition emit :: "event list \<Rightarrow> 'x::len riscv_processor_base \<Rightarrow> 'x riscv_processor_base" where
  "emit es proc = proc\<lparr>events := events proc @ es\<rparr>"

text \<open>
  Modelled from the spec: the flag \<open>processor_flag_emulator_debug\<close> is declared in
  riscv-processor.h; it is the one flag \<open>start\<close> ever sets, a single bit.
\<close>

definition processor_flag_emulator_debug :: "32 word" where
  "processor_flag_emulator_debug = 1"

definition format_inst :: "memory \<Rightarrow> uintptr \<Rightarrow> hex_inst" where
  "format_inst m addr =
     (let (inst, inst_length) = inst_fetch m addr in
      if inst_length = 2 then Hex 8 inst
      else if inst_length = 4 then Hex 8 inst
      else if inst_length = 6 then Hex 12 inst
      else if inst_length = 8 then Hex 16 inst
      else Invalid)"

section \<open>The ABI proxy (riscv-unknown-abi.h)\<close>

subsection \<open>The ABI stat structure\<close>

datatype abi_type = ulong_t | uint_t | long_t | int_t

datatype stat_member =
    abi_dev | abi_ino | abi_mode | abi_nlink | abi_uid | abi_gid | abi_rdev | abi_pad1
  | abi_size | abi_blksize | abi_pad2 | abi_blocks | abi_atime | abi_atime_nsec
  | abi_mtime | abi_mtime_nsec | abi_ctime | abi_ctime_nsec | abi_unused4 | abi_unused5

text \<open>The members of \<open>struct unknown_stat\<close>, in the order of their declaration.\<close>

definition unknown_stat :: "(stat_member \<times> abi_type) list" where
  "unknown_stat =
     [(abi_dev, ulong_t), (abi_ino, ulong_t), (abi_mode, uint_t), (abi_nlink, uint_t),
      (abi_uid, uint_t), (abi_gid, uint_t), (abi_rdev, ulong_t), (abi_pad1, ulong_t),
      (abi_size, long_t), (abi_blksize, int_t), (abi_pad2, int_t), (abi_blocks, long_t),
      (abi_atime, long_t), (abi_atime_nsec, ulong_t), (abi_mtime, long_t),
      (abi_mtime_nsec, ulong_t), (abi_ctime, long_t), (abi_ctime_nsec, ulong_t),
      (abi_unused4, uint_t), (abi_unused5, uint_t)]"

text \<open>
  Modelled from the spec: the member types \<open>P::ulong_t\<close>, \<open>P::long_t\<close>, \<open>P::uint_t\<close>
  and \<open>P::int_t\<close> are declared with the processor in riscv-processor.h, which is not
  part of the sources at hand. \<open>ulong_t\<close> and \<open>long_t\<close> are XLEN bits wide, \<open>uint_t\<close> and
  \<open>int_t\<close> are 32 bits wide. Sizes are in bytes.
\<close>

definition sizeof_abi :: "nat \<Rightarrow> abi_type \<Rightarrow> nat" where
  "sizeof_abi xlen t =
     (case t of ulong_t \<Rightarrow> xlen div 8 | long_t \<Rightarrow> xlen div 8 | uint_t \<Rightarrow> 4 | int_t \<Rightarrow> 4)"

text \<open>
  The compiler lays the members of a structure out in the order of their declaration,
  each at the next offset that is a multiple of its alignment; an integer type is aligned
  to its size. \<open>struct_layout\<close> yields each member with its offset and its size.
\<close>

definition align_up :: "nat \<Rightarrow> nat \<Rightarrow> nat" where
  "align_up off al = ((off + al - 1) div al) * al"

primrec struct_layout ::
  "nat \<Rightarrow> nat \<Rightarrow> (stat_member \<times> abi_type) list \<Rightarrow> (stat_member \<times> nat \<times> nat) list" where
  "struct_layout xlen off [] = []"
| "struct_layout xlen off (ft # fs) =
     (let sz = sizeof_abi xlen (snd ft); at = align_up off sz
      in (fst ft, at, sz) # struct_layout xlen (at + sz) fs)"

definition offsetof :: "nat \<Rightarrow> stat_member \<Rightarrow> nat" where
  "offsetof xlen f =
     (case map_of (struct_layout xlen 0 unknown_stat) f of Some (at, sz) \<Rightarrow> at | None \<Rightarrow> 0)"

definition member_size :: "nat \<Rightarrow> stat_member \<Rightarrow> nat" where
  "member_size xlen f =
     (case map_of (struct_layout xlen 0 unknown_stat) f of Some (at, sz) \<Rightarrow> sz | None \<Rightarrow> 0)"

text \<open>
  An assignment \<open>abi_stat->f = v\<close> stores \<open>v\<close>, cut to the width of the member, at the
  member's offset from the guest address \<open>abi_stat\<close>.
\<close>

definition assign_member :: "nat \<Rightarrow> uintptr \<Rightarrow> memory \<Rightarrow> stat_member \<times> 64 word \<Rightarrow> memory" where
  "assign_member xlen abi_stat m fv =
     store_le m (abi_stat + of_nat (offsetof xlen (fst fv))) (member_size xlen (fst fv)) (snd fv)"

text \<open>
  \<open>cvt_unknown_stat\<close> assigns sixteen members, in this order; the four padding members
  are not assigned. (On macOS the times come from \<open>st_atimespec\<close> and its siblings; the
  assignments are the same.)
\<close>

definition cvt_unknown_stat :: "nat \<Rightarrow> uintptr \<Rightarrow> host_stat \<Rightarrow> memory \<Rightarrow> memory" where
  "cvt_unknown_stat xlen abi_stat hs m =
     foldl (assign_member xlen abi_stat) m
       [(abi_dev, st_dev hs), (abi_ino, st_ino hs), (abi_mode, st_mode hs),
        (abi_nlink, st_nlink hs), (abi_uid, st_uid hs), (abi_gid, st_gid hs),
        (abi_rdev, st_rdev hs), (abi_size, st_size hs), (abi_blocks, st_blocks hs),
        (abi_blksize, st_blksize hs),
        (abi_atime, st_atim_sec hs), (abi_atime_nsec, st_atim_nsec hs),
        (abi_mtime, st_mtim_sec hs), (abi_mtime_nsec, st_mtim_nsec hs),
        (abi_ctime, st_ctim_sec hs), (abi_ctime_nsec, st_ctim_nsec hs)]"

subsection \<open>System calls\<close>

definition sys_close :: "host \<Rightarrow> 'x::len riscv_processor_base \<Rightarrow> 'x riscv_processor_base" where
  "sys_close h proc =
     (let fd = ireg_int (ireg proc riscv_ireg_a0);
          r = h_close h (events proc) fd
      in set_ireg riscv_ireg_a0 (case r of Success u \<Rightarrow> 0 | Failure e \<Rightarrow> - 1)
           (emit [Host_close fd] proc))"

definition sys_write :: "host \<Rightarrow> 'x::len riscv_processor_base \<Rightarrow> 'x riscv_processor_base" where
  "sys_write h proc =
     (let fd = ireg_int (ireg proc riscv_ireg_a0);
          buf = ireg_uintptr (ireg proc riscv_ireg_a1);
          n = ireg_uintptr (ireg proc riscv_ireg_a2);
          r = h_write h (events proc) fd buf n
      in set_ireg riscv_ireg_a0 (case r of Success k \<Rightarrow> uintptr_ireg k | Failure e \<Rightarrow> - 1)
           (emit [Host_write fd buf n] proc))"

definition sys_fstat :: "host \<Rightarrow> 'x::len riscv_processor_base \<Rightarrow> 'x riscv_processor_base" where
  "sys_fstat h proc =
     (let fd = ireg_int (ireg proc riscv_ireg_a0);
          r = h_fstat h (events proc) fd;
          proc1 = set_ireg riscv_ireg_a0 (case r of Success hs \<Rightarrow> 0 | Failure e \<Rightarrow> - 1)
                    (emit [Host_fstat fd] proc)
      in case r of
           Success host_stat \<Rightarrow>
             (let abi_stat = ucast (ireg proc1 riscv_ireg_a1) :: uintptr
              in proc1\<lparr>mem := cvt_unknown_stat LENGTH('x) abi_stat host_stat (mem proc1)\<rparr>)
         | Failure e \<Rightarrow> proc1)"

text \<open>
  Modelled from the spec: \<open>round_up\<close> is declared in a header that is not part of the
  sources at hand. It rounds \<open>x\<close> up to the next multiple of \<open>y\<close>, in \<open>uintptr_t\<close>
  arithmetic.
\<close>

definition round_up :: "uintptr \<Rightarrow> uintptr \<Rightarrow> uintptr" where
  "round_up x y = ((x + y - 1) div y) * y"

definition sys_brk :: "host \<Rightarrow> 'x::len riscv_processor_base \<Rightarrow> 'x riscv_processor_base" where
  "sys_brk h proc =
     (let new_addr = ireg_uintptr (ireg proc riscv_ireg_a0);
          curr_heap_end = round_up (heap_end proc) (page_size h);
          new_heap_end = round_up new_addr (page_size h)
      in if heap_end proc \<ge> new_heap_end \<or> new_heap_end = curr_heap_end
         then set_ireg riscv_ireg_a0 (uintptr_ireg new_addr) proc
         else
           (let len = new_heap_end - curr_heap_end;
                prot = PROT_READ OR PROT_WRITE;
                proc1 = emit [Host_mmap curr_heap_end len prot Anonymous] proc
            in case h_mmap h (events proc) curr_heap_end len prot Anonymous of
                 Failure e \<Rightarrow>
                   set_ireg riscv_ireg_a0 (- of_nat ENOMEM) (emit [Debug (Brk_mmap_error e)] proc1)
               | Success u \<Rightarrow>
                   (let proc2 = proc1\<lparr>mem := mapped h (mem proc1) curr_heap_end len Anonymous,
                                       mapped_segments :=
                                         mapped_segments proc1 @ [(curr_heap_end, len)],
                                       heap_end := new_heap_end\<rparr>;
                        proc3 = (if flags proc2 AND processor_flag_emulator_debug \<noteq> 0
                                 then emit [Debug (Brk_mmap curr_heap_end new_heap_end)] proc2
                                 else proc2)
                    in set_ireg riscv_ireg_a0 (uintptr_ireg new_addr) proc3)))"

subsection \<open>Dispatch\<close>

text \<open>
  Modelled from the spec: the system call numbers are declared in a header that is not
  part of the sources at hand; they are the numbers of the RISC-V system call ABI (the
  guest of the spec's first scenario exits with \<open>a7 = 93\<close>).
\<close>

definition riscv_syscall_close :: nat where "riscv_syscall_close = 57"
definition riscv_syscall_write :: nat where "riscv_syscall_write = 64"
definition riscv_syscall_fstat :: nat where "riscv_syscall_fstat = 80"
definition riscv_syscall_exit :: nat where "riscv_syscall_exit = 93"
definition riscv_syscall_brk :: nat where "riscv_syscall_brk = 214"

text \<open>
  \<open>exit\<close> and \<open>panic\<close> end the process: a function that may reach them returns either
  the reason (\<open>Inl\<close>) or its result (\<open>Inr\<close>).
\<close>

datatype abort = Exit "32 word" | Panic panic

definition proxy_syscall ::
  "host \<Rightarrow> 'x::len riscv_processor_base \<Rightarrow> abort + 'x riscv_processor_base" where
  "proxy_syscall h proc =
     (let n = unat (ireg proc riscv_ireg_a7) in
      if n = riscv_syscall_close then Inr (sys_close h proc)
      else if n = riscv_syscall_write then Inr (sys_write h proc)
      else if n = riscv_syscall_fstat then Inr (sys_fstat h proc)
      else if n = riscv_syscall_exit then Inl (Exit (ireg_int (ireg proc riscv_ireg_a0)))
      else if n = riscv_syscall_brk then Inr (sys_brk h proc)
      else Inl (Panic (Unknown_syscall n)))"

section \<open>The stepper (riscv-test-emulate.cc, \<open>riscv_proxy_runner\<close>)\<close>

text \<open>
  The runner is a template over a processor unit \<open>P\<close>, which supplies \<open>decode_inst\<close> and
  \<open>exec_inst\<close>. Both end in generated code (the decoder and the interpreter of
  riscv-decode.h and riscv-interp.h) that is not part of the sources at hand, so the unit
  is a parameter: \<open>P_decode_inst\<close> writes into the record it is handed, \<open>P_exec_inst\<close>
  returns whether it handled the instruction together with the processor it leaves, and
  \<open>riscv_op_ecall\<close> is the opcode id of \<open>ecall\<close>.
\<close>

record (overloaded) 'x unit =
  P_decode_inst :: "decode \<Rightarrow> 64 word \<Rightarrow> decode"
  P_exec_inst :: "decode \<Rightarrow> size_t \<Rightarrow> 'x riscv_processor_base \<Rightarrow> bool \<times> 'x riscv_processor_base"
  riscv_op_ecall :: "8 word"

record riscv_inst_cache_ent =
  cache_inst :: "64 word"
  cache_dec :: decode

record (overloaded) 'x riscv_proxy_runner =
  base :: "'x riscv_processor_base"
  inst_cache :: "64 word \<Rightarrow> riscv_inst_cache_ent"

definition inst_cache_size :: "64 word" where
  "inst_cache_size = 8191"

text \<open>
  The cache lookup of \<open>step\<close>. The number of entries is a parameter, so that runs with
  caches of different sizes can be compared; the program uses \<open>inst_cache_size\<close>.
\<close>

definition inst_cache_lookup ::
  "64 word \<Rightarrow> 'x::len unit \<Rightarrow> (64 word \<Rightarrow> riscv_inst_cache_ent) \<Rightarrow> decode \<Rightarrow> 64 word
     \<Rightarrow> decode \<times> (64 word \<Rightarrow> riscv_inst_cache_ent)" where
  "inst_cache_lookup csize U cache dec inst =
     (let inst_cache_key = inst mod csize in
      if cache_inst (cache inst_cache_key) = inst
      then (cache_dec (cache inst_cache_key), cache)
      else (let dec1 = P_decode_inst U dec inst
            in (dec1, cache(inst_cache_key := \<lparr>cache_inst = inst, cache_dec = dec1\<rparr>))))"

text \<open>
  The two logging lines of the loop: the integer registers, then the disassembly of the
  instruction about to be executed.
\<close>

definition print_logs ::
  "decode \<Rightarrow> 'x::len riscv_processor_base \<Rightarrow> 'x riscv_processor_base" where
  "print_logs dec proc =
     (let proc1 = (if log_registers proc
                   then emit [Print_int_registers (map (\<lambda>i. unat (ireg proc i)) [0..<ireg_count])] proc
                   else proc)
      in if log_instructions proc1
         then emit [Print_disassembly (ucast (pc proc1))
                      (format_inst (mem proc1) (ucast (pc proc1))) dec] proc1
         else proc1)"

datatype loop_ctl = Continue | Return bool

text \<open>
  One pass through the body of the loop of \<open>step\<close>. The record \<open>dec\<close> is declared
  before the loop, so it is handed from one pass to the next.
\<close>

definition step_iteration ::
  "64 word \<Rightarrow> 'x::len unit \<Rightarrow> host \<Rightarrow> decode \<Rightarrow> 'x riscv_proxy_runner
     \<Rightarrow> abort + (loop_ctl \<times> decode \<times> 'x riscv_proxy_runner)" where
  "step_iteration csize U h dec r =
     (let (inst, inst_length) = inst_fetch (mem (base r)) (ucast (pc (base r)));
          (dec1, cache1) = inst_cache_lookup csize U (inst_cache r) dec inst;
          (handled, proc3) = P_exec_inst U dec1 inst_length (print_logs dec1 (base r))
      in if handled then Inr (Continue, dec1, \<lparr>base = proc3, inst_cache = cache1\<rparr>)
         else if op dec1 = riscv_op_ecall U
         then (case proxy_syscall h proc3 of
                 Inl a \<Rightarrow> Inl a
               | Inr proc4 \<Rightarrow>
                   Inr (Continue, dec1,
                        \<lparr>base = proc4\<lparr>pc := pc proc4 + ucast inst_length\<rparr>, inst_cache = cache1\<rparr>))
         else Inr (Return False, dec1,
                   \<lparr>base = emit [Debug (Illegal_instruction (ucast (pc proc3))
                                          (format_inst (mem proc3) (ucast (pc proc3))))] proc3,
                    inst_cache = cache1\<rparr>))"

text \<open>
  The state of the loop after \<open>n\<close> passes: the control decision of the last pass, the
  record \<open>dec\<close> and the runner; once a pass has left the loop (by \<open>return\<close>, \<open>exit\<close> or
  \<open>panic\<close>) later passes change nothing.
\<close>

primrec step_passes ::
  "nat \<Rightarrow> 64 word \<Rightarrow> 'x::len unit \<Rightarrow> host \<Rightarrow> decode \<Rightarrow> 'x riscv_proxy_runner
     \<Rightarrow> abort + (loop_ctl \<times> decode \<times> 'x riscv_proxy_runner)" where
  "step_passes 0 csize U h dec r = Inr (Continue, dec, r)"
| "step_passes (Suc n) csize U h dec r =
     (case step_passes n csize U h dec r of
        Inl a \<Rightarrow> Inl a
      | Inr (Continue, dec1, r1) \<Rightarrow> step_iteration csize U h dec1 r1
      | Inr (Return b, dec1, r1) \<Rightarrow> Inr (Return b, dec1, r1))"

text \<open>
  The loop \<open>while (i < count)\<close> of \<open>step\<close>. The counter \<open>i\<close> is set to 0 before the loop
  and nothing in the loop changes it, so the loop may run forever: the first argument
  bounds the number of passes, and \<open>None\<close> means that the bound did not suffice.
\<close>

primrec step_loop ::
  "nat \<Rightarrow> 64 word \<Rightarrow> 'x::len unit \<Rightarrow> host \<Rightarrow> size_t \<Rightarrow> decode \<Rightarrow> 'x riscv_proxy_runner
     \<Rightarrow> (abort + bool \<times> 'x riscv_proxy_runner) option" where
  "step_loop 0 csize U h count dec r =
     (if (0 :: size_t) < count then None else Some (Inr (True, r)))"
| "step_loop (Suc fuel) csize U h count dec r =
     (if (0 :: size_t) < count
      then (case step_iteration csize U h dec r of
              Inl a \<Rightarrow> Some (Inl a)
            | Inr (Continue, dec1, r1) \<Rightarrow> step_loop fuel csize U h count dec1 r1
            | Inr (Return b, dec1, r1) \<Rightarrow> Some (Inr (b, r1)))
      else Some (Inr (True, r)))"

definition step ::
  "nat \<Rightarrow> 'x::len unit \<Rightarrow> host \<Rightarrow> size_t \<Rightarrow> 'x riscv_proxy_runner
     \<Rightarrow> (abort + bool \<times> 'x riscv_proxy_runner) option" where
  "step fuel U h count r = step_loop fuel inst_cache_size U h count decode_init r"

section \<open>The emulator (riscv-test-emulate.cc, \<open>riscv_emulator\<close>)\<close>

record Elf64_Phdr =
  p_type :: "32 word"
  p_flags :: "32 word"
  p_offset :: "64 word"
  p_vaddr :: "64 word"
  p_paddr :: "64 word"
  p_filesz :: "64 word"
  p_memsz :: "64 word"
  p_align :: "64 word"

text \<open>
  The emulator with the parts of its \<open>elf_file\<close> that \<open>start\<close> reads: the entry
  point \<open>elf.ehdr.e_entry\<close> and the program headers \<open>elf.phdrs\<close>.
\<close>

record riscv_emulator =
  e_entry :: "64 word"
  phdrs :: "Elf64_Phdr list"
  filename :: string
  emulator_debug :: bool
  opt_log_registers :: bool
  opt_log_instructions :: bool

definition stack_top :: uintptr where "stack_top = 0x78000000"
definition stack_size :: uintptr where "stack_size = 0x01000000"

definition elf_p_flags_mmap :: "32 word \<Rightarrow> 32 word" where
  "elf_p_flags_mmap v =
     (let prot0 = 0;
          prot1 = (if v AND PF_X \<noteq> 0 then prot0 OR PROT_EXEC else prot0);
          prot2 = (if v AND PF_W \<noteq> 0 then prot1 OR PROT_WRITE else prot1);
          prot3 = (if v AND PF_R \<noteq> 0 then prot2 OR PROT_READ else prot2)
      in prot3)"

definition map_stack ::
  "host \<Rightarrow> riscv_emulator \<Rightarrow> 'x::len riscv_processor_base \<Rightarrow> uintptr \<Rightarrow> uintptr
     \<Rightarrow> abort + 'x riscv_processor_base" where
  "map_stack h emu proc stk_top stk_size =
     (let prot = PROT_READ OR PROT_WRITE;
          proc1 = emit [Host_mmap (stk_top - stk_size) stk_size prot Anonymous] proc
      in case h_mmap h (events proc) (stk_top - stk_size) stk_size prot Anonymous of
           Failure e \<Rightarrow> Inl (Panic (Map_stack_mmap e))
         | Success u \<Rightarrow>
             (let proc2 = proc1\<lparr>mem := mapped h (mem proc1) (stk_top - stk_size) stk_size Anonymous,
                                 mapped_segments := mapped_segments proc1 @ [(stk_top - stk_size, stk_size)]\<rparr>;
                  proc3 = set_ireg riscv_ireg_sp (uintptr_ireg (stk_top - 0x8)) proc2
              in Inr (if emulator_debug emu
                      then emit [Debug (Sp_mmap (stk_top - stk_size) stk_top)] proc3 else proc3)))"

definition map_load_segment ::
  "host \<Rightarrow> riscv_emulator \<Rightarrow> 'x::len riscv_processor_base \<Rightarrow> Elf64_Phdr
     \<Rightarrow> abort + 'x riscv_processor_base" where
  "map_load_segment h emu proc phdr =
     (case h_open h (events proc) (filename emu) of
        Failure e \<Rightarrow> Inl (Panic (Map_executable_open (filename emu) e))
      | Success fd \<Rightarrow>
          (let proc1 = emit [Host_open (filename emu)] proc;
               prot = elf_p_flags_mmap (p_flags phdr);
               b = File_backed (filename emu) (p_offset phdr);
               r = h_mmap h (events proc1) (p_vaddr phdr) (p_memsz phdr) prot b;
               proc2 = emit [Host_mmap (p_vaddr phdr) (p_memsz phdr) prot b, Host_close fd] proc1
           in case r of
                Failure e \<Rightarrow> Inl (Panic (Map_executable_mmap (filename emu) e))
              | Success u \<Rightarrow>
                  (let proc3 = proc2\<lparr>mem := mapped h (mem proc2) (p_vaddr phdr) (p_memsz phdr) b,
                                      mapped_segments :=
                                        mapped_segments proc2 @ [(p_vaddr phdr, p_memsz phdr)]\<rparr>;
                       seg_end = p_vaddr phdr + p_memsz phdr;
                       proc4 = (if heap_begin proc3 < seg_end
                                then proc3\<lparr>heap_begin := seg_end, heap_end := seg_end\<rparr>
                                else proc3)
                   in Inr (if emulator_debug emu
                           then emit [Debug (Elf_mmap (p_vaddr phdr) seg_end (p_flags phdr))] proc4
                           else proc4))))"

text \<open>The loop of \<open>start\<close> over the program headers.\<close>

primrec load_segments ::
  "host \<Rightarrow> riscv_emulator \<Rightarrow> Elf64_Phdr list \<Rightarrow> 'x::len riscv_processor_base
     \<Rightarrow> abort + 'x riscv_processor_base" where
  "load_segments h emu [] proc = Inr proc"
| "load_segments h emu (phdr # rest) proc =
     (if p_flags phdr AND PT_LOAD \<noteq> 0
      then (case map_load_segment h emu proc phdr of
              Inl a \<Rightarrow> Inl a
            | Inr proc1 \<Rightarrow> load_segments h emu rest proc1)
      else load_segments h emu rest proc)"

text \<open>
  The loop \<open>while (proc.step(1024));\<close> of \<open>start\<close>, with the same bound on the number
  of passes as \<open>step_loop\<close>.
\<close>

primrec run_loop ::
  "nat \<Rightarrow> 'x::len unit \<Rightarrow> host \<Rightarrow> 'x riscv_proxy_runner \<Rightarrow> (abort + 'x riscv_proxy_runner) option" where
  "run_loop 0 U h r = None"
| "run_loop (Suc fuel) U h r =
     (case step fuel U h 1024 r of
        None \<Rightarrow> None
      | Some (Inl a) \<Rightarrow> Some (Inl a)
      | Some (Inr (True, r1)) \<Rightarrow> run_loop fuel U h r1
      | Some (Inr (False, r1)) \<Rightarrow> Some (Inr r1))"

definition unmap_segments :: "'x::len riscv_processor_base \<Rightarrow> 'x riscv_processor_base" where
  "unmap_segments proc = emit (map (\<lambda>seg. Host_munmap (fst seg) (snd seg)) (mapped_segments proc)) proc"

text \<open>
  \<open>start\<close> declares the processor as a local object: the constructor of
  \<open>riscv_processor_base\<close> sets the members it names, the constructor of each cached
  \<open>decode\<close> record runs, and nothing sets the \<open>inst\<close> members of the cache. \<open>proc0\<close> is
  the object as it is allocated.
\<close>

definition start ::
  "nat \<Rightarrow> 'x::len unit \<Rightarrow> host \<Rightarrow> riscv_emulator \<Rightarrow> 'x riscv_proxy_runner
     \<Rightarrow> (abort + 'x riscv_proxy_runner) option" where
  "start fuel U h emu proc0 =
     (let proc = (base proc0)\<lparr>
            mapped_segments := [], heap_begin := 0, heap_end := 0,
            flags := (if emulator_debug emu then processor_flag_emulator_debug else 0),
            log_registers := opt_log_registers emu,
            log_instructions := opt_log_instructions emu,
            pc := ucast (e_entry emu)\<rparr>
      in case load_segments h emu (phdrs emu) proc of
           Inl a \<Rightarrow> Some (Inl a)
         | Inr proc1 \<Rightarrow>
             (case map_stack h emu proc1 stack_top stack_size of
                Inl a \<Rightarrow> Some (Inl a)
              | Inr proc2 \<Rightarrow>
                  (case run_loop fuel U h
                          \<lparr>base = proc2,
                           inst_cache = (\<lambda>k. (inst_cache proc0 k)\<lparr>cache_dec := decode_init\<rparr>)\<rparr> of
                     None \<Rightarrow> None
                   | Some (Inl a) \<Rightarrow> Some (Inl a)
                   | Some (Inr r) \<Rightarrow> Some (Inr (r\<lparr>base := unmap_segments (base r)\<rparr>)))))"

section \<open>Example hosts and an example processor\<close>

text \<open>
  Concrete values at which the theorems below are instantiated: a host on which every
  call succeeds, a host on which every call fails, the \<open>stat\<close> of a regular file of
  4 GiB, and a 64-bit processor whose heap ends at \<open>0x12345\<close>.
\<close>

definition example_stat :: host_stat where
  "example_stat =
     \<lparr>st_dev = 2049, st_ino = 131, st_mode = 0x81A4, st_nlink = 1, st_uid = 1000, st_gid = 1000,
      st_rdev = 0, st_size = 0x100000000, st_blocks = 8388616, st_blksize = 4096,
      st_atim_sec = 1700000000, st_atim_nsec = 5, st_mtim_sec = 1700000001, st_mtim_nsec = 6,
      st_ctim_sec = 1700000002, st_ctim_nsec = 7\<rparr>"

definition host_ok :: host where
  "host_ok =
     \<lparr>page_size = 4096,
      h_open = (\<lambda>es f. Success 3),
      h_close = (\<lambda>es fd. Success ()),
      h_write = (\<lambda>es fd buf n. Success n),
      h_fstat = (\<lambda>es fd. Success example_stat),
      h_mmap = (\<lambda>es addr len prot b. Success ()),
      h_file = (\<lambda>f off. 0)\<rparr>"

definition host_failing :: host where
  "host_failing =
     \<lparr>page_size = 4096,
      h_open = (\<lambda>es f. Failure 2),
      h_close = (\<lambda>es fd. Failure 9),
      h_write = (\<lambda>es fd buf n. Failure 9),
      h_fstat = (\<lambda>es fd. Failure 9),
      h_mmap = (\<lambda>es addr len prot b. Failure 12),
      h_file = (\<lambda>f off. 0)\<rparr>"

definition example_proc :: "64 riscv_processor_base" where
  "example_proc =
     \<lparr>pc = 0x10000, ireg = (\<lambda>r. 0), flags = 0, mapped_segments = [(0x10000, 0x2345)],
      heap_begin = 0x12345, heap_end = 0x12345, log_registers = False,
      log_instructions = False, mem = (\<lambda>a. 0), events = []\<rparr>"

definition fresh_proc :: "64 riscv_processor_base" where
  "fresh_proc =
     \<lparr>pc = 0x10000, ireg = (\<lambda>r. 0), flags = 0, mapped_segments = [],
      heap_begin = 0, heap_end = 0, log_registers = False,
      log_instructions = False, mem = (\<lambda>a. 0), events = []\<rparr>"

text \<open>
  An example unit: its decoder is \<open>decode_inst\<close> with an opcode table that knows
  \<open>addi x0, x0, 0\<close> (opcode id 1) and \<open>ecall\<close> (opcode id 2) and takes every other word
  for illegal (opcode id 0), and with an operand decoder that zeroes the codec tag and
  the immediate; its executor handles opcode id 1 by advancing the program counter and
  nothing else.
\<close>

definition example_unit :: "64 unit" where
  "example_unit =
     \<lparr>P_decode_inst =
        decode_inst (\<lambda>inst. if inst = 0x00000013 then 1 else if inst = 0x00000073 then 2 else 0)
          (\<lambda>dec inst. dec\<lparr>codec := 0, imm := 0, rvc_inst := 0\<rparr>),
      P_exec_inst = (\<lambda>dec len proc. if op dec = 1 then (True, proc\<lparr>pc := pc proc + len\<rparr>)
                                       else (False, proc)),
      riscv_op_ecall = 2\<rparr>"

text \<open>
  A cache in memory that reads as zero, after the constructors of its records ran; and a
  cache in which the \<open>inst\<close> member of slot 19, which nothing has set, holds \<open>0x13\<close>.
\<close>

definition zero_cache :: "64 word \<Rightarrow> riscv_inst_cache_ent" where
  "zero_cache = (\<lambda>k. \<lparr>cache_inst = 0, cache_dec = decode_init\<rparr>)"

definition unset_cache :: "64 word \<Rightarrow> riscv_inst_cache_ent" where
  "unset_cache = zero_cache(19 := \<lparr>cache_inst = 0x00000013, cache_dec = decode_init\<rparr>)"

text \<open>A processor about to execute \<open>addi x0, x0, 0\<close> at \<open>0x10000\<close>, followed by zero bytes.\<close>

definition nop_proc :: "64 riscv_processor_base" where
  "nop_proc = fresh_proc\<lparr>mem := (\<lambda>a. if a = 0x10000 then 0x13 else 0)\<rparr>"

text \<open>An executable with a program header table, a text segment and a data segment.\<close>

definition text_phdr :: Elf64_Phdr where
  "text_phdr = \<lparr>p_type = 1, p_flags = 5, p_offset = 0, p_vaddr = 0x10000, p_paddr = 0x10000,
                 p_filesz = 0x1000, p_memsz = 0x1000, p_align = 0x1000\<rparr>"

definition data_phdr :: Elf64_Phdr where
  "data_phdr = \<lparr>p_type = 1, p_flags = 6, p_offset = 0x1000, p_vaddr = 0x11000, p_paddr = 0x11000,
                 p_filesz = 0x100, p_memsz = 0x200, p_align = 0x1000\<rparr>"

definition phdr_phdr :: Elf64_Phdr where
  "phdr_phdr = \<lparr>p_type = 6, p_flags = 5, p_offset = 0x40, p_vaddr = 0x10040, p_paddr = 0x10040,
                 p_filesz = 0xA8, p_memsz = 0xA8, p_align = 8\<rparr>"

definition example_emu :: riscv_emulator where
  "example_emu = \<lparr>e_entry = 0x10000, phdrs = [phdr_phdr, text_phdr, data_phdr],
                   filename = ''a.out'', emulator_debug = False,
                   opt_log_registers = False, opt_log_instructions = False\<rparr>"

text \<open>A 32-bit processor about to call \<open>fstat(3, 0x20000)\<close>.\<close>

definition example_proc32 :: "32 riscv_processor_base" where
  "example_proc32 =
     \<lparr>pc = 0x10000, ireg = (\<lambda>r. 0)(riscv_ireg_a0 := 3, riscv_ireg_a1 := 0x20000), flags = 0,
      mapped_segments = [(0x10000, 0x2345)],
      heap_begin = 0x12345, heap_end = 0x12345, log_registers = False,
      log_instructions = False, mem = (\<lambda>a. 0), events = []\<rparr>"

section \<open>Properties of the instruction codec\<close>

subsection \<open>Bit masks as tests on single bits\<close>

lemma and_field_full_iff:
  fixes w :: "64 word"
  assumes "lo + k \<le> 64"
  shows "(w AND push_bit lo (mask k) = push_bit lo (mask k)) = (\<forall>i. lo \<le> i \<and> i < lo + k \<longrightarrow> bit w i)"
proof -
  have b: "bit (push_bit lo (mask k) :: 64 word) i = (lo \<le> i \<and> i < lo + k)" for i
    using assms by (auto simp: bit_push_bit_iff bit_mask_iff)
  show ?thesis
  proof
    assume e: "w AND push_bit lo (mask k) = push_bit lo (mask k)"
    have "bit (w AND push_bit lo (mask k)) i" if "lo \<le> i \<and> i < lo + k" for i
      unfolding e using that by (simp only: b)
    then show "\<forall>i. lo \<le> i \<and> i < lo + k \<longrightarrow> bit w i"
      by (simp only: bit_and_iff) blast
  next
    assume a: "\<forall>i. lo \<le> i \<and> i < lo + k \<longrightarrow> bit w i"
    show "w AND push_bit lo (mask k) = push_bit lo (mask k)"
    proof (rule bit_word_eqI)
      fix i assume "i < LENGTH(64)"
      show "bit (w AND push_bit lo (mask k)) i = bit (push_bit lo (mask k) :: 64 word) i"
        unfolding bit_and_iff b using a by blast
    qed
  qed
qed

lemma and_mask_top_clear_iff:
  fixes w :: "64 word"
  assumes "n < 64"
  shows "(w AND mask (Suc n) = mask n) = ((\<forall>i<n. bit w i) \<and> \<not> bit w n)"
proof
  assume e: "w AND mask (Suc n) = mask n"
  have "\<not> bit (w AND mask (Suc n)) n" unfolding e by (simp add: bit_mask_iff)
  then have 1: "\<not> bit w n" using assms by (simp add: bit_and_iff bit_mask_iff)
  have 2: "\<forall>i<n. bit w i"
  proof (intro allI impI)
    fix i assume "i < n"
    then have "bit (w AND mask (Suc n)) i" unfolding e using assms by (simp add: bit_mask_iff)
    then show "bit w i" by (simp add: bit_and_iff)
  qed
  from 1 2 show "(\<forall>i<n. bit w i) \<and> \<not> bit w n" by simp
next
  assume a: "(\<forall>i<n. bit w i) \<and> \<not> bit w n"
  show "w AND mask (Suc n) = mask n"
  proof (rule bit_word_eqI)
    fix i assume "i < LENGTH(64)"
    show "bit (w AND mask (Suc n)) i = bit (mask n :: 64 word) i"
    proof (cases "i = n")
      case True then show ?thesis using a by (simp add: bit_and_iff bit_mask_iff)
    next
      case False then show ?thesis using a by (auto simp: bit_and_iff bit_mask_iff less_Suc_eq)
    qed
  qed
qed

lemma and_3_iff: "(w AND 3 = 3) = (bit w 0 \<and> bit w 1)" for w :: "64 word"
proof -
  have m: "(3 :: 64 word) = push_bit 0 (mask 2)" by (simp add: mask_eq_exp_minus_1)
  have c: "(0 \<le> i \<and> i < 0 + 2) = (i = 0 \<or> i = 1)" for i :: nat by arith
  have "(w AND 3 = 3) = (\<forall>i. 0 \<le> i \<and> i < 0 + 2 \<longrightarrow> bit w i)"
    unfolding m by (rule and_field_full_iff) simp
  then show ?thesis unfolding c by auto
qed

lemma and_28_iff: "(w AND 28 = 28) = (bit w 2 \<and> bit w 3 \<and> bit w 4)" for w :: "64 word"
proof -
  have m: "(28 :: 64 word) = push_bit 2 (mask 3)" by (simp add: mask_eq_exp_minus_1)
  have c: "(2 \<le> i \<and> i < 2 + 3) = (i = 2 \<or> i = 3 \<or> i = 4)" for i :: nat by arith
  have "(w AND 28 = 28) = (\<forall>i. 2 \<le> i \<and> i < 2 + 3 \<longrightarrow> bit w i)"
    unfolding m by (rule and_field_full_iff) simp
  then show ?thesis unfolding c by auto
qed

lemma all_less_numeral:
  "(\<forall>i<5. P (i::nat)) = (P 0 \<and> P 1 \<and> P 2 \<and> P 3 \<and> P 4)"
  "(\<forall>i<6. P (i::nat)) = (P 0 \<and> P 1 \<and> P 2 \<and> P 3 \<and> P 4 \<and> P 5)"
  by (simp_all add: eval_nat_numeral All_less_Suc conj_ac)

lemma and_63_iff:
  "(w AND 63 = 31) = (bit w 0 \<and> bit w 1 \<and> bit w 2 \<and> bit w 3 \<and> bit w 4 \<and> \<not> bit w 5)"
  for w :: "64 word"
proof -
  have m: "(63 :: 64 word) = mask (Suc 5)" "(31 :: 64 word) = mask 5"
    by (simp_all add: mask_eq_exp_minus_1)
  have "(w AND 63 = 31) = ((\<forall>i<5. bit w i) \<and> \<not> bit w 5)"
    unfolding m by (rule and_mask_top_clear_iff) simp
  then show ?thesis by (simp only: all_less_numeral conj_assoc)
qed

lemma and_127_iff:
  "(w AND 127 = 63) =
     (bit w 0 \<and> bit w 1 \<and> bit w 2 \<and> bit w 3 \<and> bit w 4 \<and> bit w 5 \<and> \<not> bit w 6)"
  for w :: "64 word"
proof -
  have m: "(127 :: 64 word) = mask (Suc 6)" "(63 :: 64 word) = mask 6"
    by (simp_all add: mask_eq_exp_minus_1)
  have "(w AND 127 = 63) = ((\<forall>i<6. bit w i) \<and> \<not> bit w 6)"
    unfolding m by (rule and_mask_top_clear_iff) simp
  then show ?thesis by (simp only: all_less_numeral conj_assoc)
qed

text \<open>
  Claim C6. For every 64-bit word the length classifier returns 2, 4, 6, 8 or the illegal
  marker 0, and each value is returned in exactly one case: 2 when the low two bits are
  not both set; 4 when they are and bits 2 to 4 are not all set; 6 when the low six bits
  are \<open>011111\<close>; 8 when the low seven bits are \<open>0111111\<close>; 0 in the one case that is
  left, all of the low seven bits set. The five values differ, so the cases exclude one
  another, and they cover every word.
\<close>

theorem inst_length_classifies:
  fixes w :: "64 word"
  shows "inst_length w \<in> {2, 4, 6, 8, 0}
    \<and> (inst_length w = 2) = (\<not> (bit w 0 \<and> bit w 1))
    \<and> (inst_length w = 4) = ((bit w 0 \<and> bit w 1) \<and> \<not> (bit w 2 \<and> bit w 3 \<and> bit w 4))
    \<and> (inst_length w = 6) =
        (bit w 0 \<and> bit w 1 \<and> bit w 2 \<and> bit w 3 \<and> bit w 4 \<and> \<not> bit w 5)
    \<and> (inst_length w = 8) =
        (bit w 0 \<and> bit w 1 \<and> bit w 2 \<and> bit w 3 \<and> bit w 4 \<and> bit w 5 \<and> \<not> bit w 6)
    \<and> (inst_length w = 0) =
        (bit w 0 \<and> bit w 1 \<and> bit w 2 \<and> bit w 3 \<and> bit w 4 \<and> bit w 5 \<and> bit w 6)"
proof (cases "bit w 0 \<and> bit w 1")
  case False
  then show ?thesis unfolding inst_length_def and_3_iff by auto
next
  case lo: True
  show ?thesis
  proof (cases "bit w 2 \<and> bit w 3 \<and> bit w 4")
    case False
    with lo show ?thesis unfolding inst_length_def and_3_iff and_28_iff by auto
  next
    case mid: True
    show ?thesis
    proof (cases "bit w 5")
      case False
      with lo mid show ?thesis
        unfolding inst_length_def and_3_iff and_28_iff and_63_iff by simp
    next
      case True
      with lo mid show ?thesis
        unfolding inst_length_def and_3_iff and_28_iff and_63_iff and_127_iff by simp
    qed
  qed
qed

section \<open>Properties of the ABI proxy\<close>

subsection \<open>Rounding to pages\<close>

lemma unat_round_up:
  assumes "y \<noteq> 0"
  shows "unat (round_up x y) = ((unat x + unat y - 1) mod 2 ^ 64 div unat y) * unat y"
proof -
  have y1: "1 \<le> unat y" using assms by (simp add: unat_gt_0 Suc_le_eq)
  have s: "unat (x + y - 1) = (unat x + unat y - 1) mod 2 ^ 64"
  proof -
    have e: "x + y - 1 = x + (y - 1)" by simp
    have m: "unat (y - 1) = unat y - 1"
      using assms by (simp add: unat_minus_one)
    have "unat (x + (y - 1)) = (unat x + unat (y - 1)) mod 2 ^ 64"
      by (simp add: unat_word_ariths)
    then have "unat (x + y - 1) = (unat x + (unat y - 1)) mod 2 ^ 64"
      unfolding e m .
    with y1 show ?thesis by (simp add: Nat.add_diff_assoc)
  qed
  have d: "unat ((x + y - 1) div y) = unat (x + y - 1) div unat y"
    by (simp add: unat_div)
  have "unat ((x + y - 1) div y) * unat y \<le> unat (x + y - 1)"
    unfolding d by simp
  also have "\<dots> < 2 ^ 64" using unsigned_less[of "x + y - 1", where ?'a = nat] by simp
  finally have "unat ((x + y - 1) div y) * unat y < 2 ^ LENGTH(64)" by simp
  then have "unat ((x + y - 1) div y * y) = unat ((x + y - 1) div y) * unat y"
    by (rule iffD1[OF unat_mult_lem])
  then show ?thesis unfolding round_up_def d s .
qed


lemma round_up_below:
  assumes "round_up n y < round_up h y"
  shows "round_up n y \<le> h"
proof (cases "y = 0")
  case True
  with assms show ?thesis by (simp add: round_up_def)
next
  case False
  define Y where "Y = unat y"
  define H where "H = unat h"
  define k where "k = (unat n + Y - 1) mod 2 ^ 64 div Y"
  have Y: "0 < Y" using False by (simp add: Y_def unat_gt_0)
  have rn: "unat (round_up n y) = k * Y"
    using unat_round_up[OF False, of n] by (simp add: k_def Y_def)
  have rh: "unat (round_up h y) = (H + Y - 1) mod 2 ^ 64 div Y * Y"
    using unat_round_up[OF False, of h] by (simp add: H_def Y_def)
  have lt: "k * Y < (H + Y - 1) mod 2 ^ 64 div Y * Y"
    using assms by (simp add: word_less_nat_alt rn rh)
  have Hb: "H < 2 ^ 64" using unsigned_less[of h, where ?'a = nat] by (simp add: H_def)
  have "k * Y \<le> H"
  proof (cases "H + Y - 1 < 2 ^ 64")
    case True
    then have q: "k < (H + Y - 1) div Y" using lt Y by simp
    then have "Suc k * Y \<le> (H + Y - 1) div Y * Y" using Y by (simp add: Suc_leI mult_le_mono1 del: mult_Suc)
    also have "\<dots> \<le> H + Y - 1" by simp
    finally have "k * Y + Y \<le> H + Y - 1" by simp
    then show ?thesis using Y by arith
  next
    case False
    then have ge: "2 ^ 64 \<le> H + Y - 1" by simp
    have "H + Y - 1 < 2 ^ 64 + 2 ^ 64"
      using Hb unsigned_less[of y, where ?'a = nat] by (simp add: Y_def)
    then have "(H + Y - 1) mod 2 ^ 64 = H + Y - 1 - 2 ^ 64"
      using ge by (simp add: mod_if)
    also have "\<dots> < Y" using Hb Y by arith
    finally have "(H + Y - 1) mod 2 ^ 64 div Y = 0" by simp
    with lt show ?thesis by simp
  qed
  then show ?thesis by (simp add: word_le_nat_alt rn H_def)
qed

subsection \<open>brk\<close>

text \<open>
  Claim C1. When the requested address, rounded up to the page size, is not above the
  current \<open>heap_end\<close> rounded up to the page size, \<open>sys_brk\<close> puts the requested
  address itself into \<open>a0\<close> and changes nothing else: \<open>heap_end\<close>, the list of mapped
  segments and memory are as before, and no host call is made.
\<close>

theorem sys_brk_fits:
  fixes proc :: "'x::len riscv_processor_base"
  assumes "round_up (ireg_uintptr (ireg proc riscv_ireg_a0)) (page_size h)
             \<le> round_up (heap_end proc) (page_size h)"
  shows "sys_brk h proc =
           proc\<lparr>ireg := (ireg proc)(riscv_ireg_a0 :=
                   uintptr_ireg (ireg_uintptr (ireg proc riscv_ireg_a0)))\<rparr>
         \<and> heap_end (sys_brk h proc) = heap_end proc
         \<and> mapped_segments (sys_brk h proc) = mapped_segments proc
         \<and> mem (sys_brk h proc) = mem proc
         \<and> events (sys_brk h proc) = events proc"
proof -
  let ?n = "round_up (ireg_uintptr (ireg proc riscv_ireg_a0)) (page_size h)"
  let ?c = "round_up (heap_end proc) (page_size h)"
  have "?n \<le> heap_end proc \<or> ?n = ?c"
  proof (cases "?n = ?c")
    case True then show ?thesis by simp
  next
    case False
    with assms have "?n < ?c" by simp
    then show ?thesis by (simp add: round_up_below)
  qed
  then have "sys_brk h proc =
      set_ireg riscv_ireg_a0 (uintptr_ireg (ireg_uintptr (ireg proc riscv_ireg_a0))) proc"
    by (simp add: sys_brk_def Let_def)
  then show ?thesis by (simp add: set_ireg_def)
qed

theorem sys_brk_fits_witness:
  "round_up (ireg_uintptr (ireg (example_proc\<lparr>ireg := (\<lambda>r. 0)(riscv_ireg_a0 := 0x12fff)\<rparr>) riscv_ireg_a0))
       (page_size host_ok)
     \<le> round_up (heap_end (example_proc\<lparr>ireg := (\<lambda>r. 0)(riscv_ireg_a0 := 0x12fff)\<rparr>)) (page_size host_ok)
   \<and> ireg (sys_brk host_ok (example_proc\<lparr>ireg := (\<lambda>r. 0)(riscv_ireg_a0 := 0x12fff)\<rparr>)) riscv_ireg_a0 = 0x12fff
   \<and> heap_end (sys_brk host_ok (example_proc\<lparr>ireg := (\<lambda>r. 0)(riscv_ireg_a0 := 0x12fff)\<rparr>)) = 0x12345
   \<and> events (sys_brk host_ok (example_proc\<lparr>ireg := (\<lambda>r. 0)(riscv_ireg_a0 := 0x12fff)\<rparr>)) = []"
proof -
  let ?p = "example_proc\<lparr>ireg := (\<lambda>r. 0)(riscv_ireg_a0 := 0x12fff)\<rparr>"
  have h: "round_up (ireg_uintptr (ireg ?p riscv_ireg_a0)) (page_size host_ok)
             \<le> round_up (heap_end ?p) (page_size host_ok)"
    by (simp add: example_proc_def host_ok_def round_up_def ireg_uintptr_def)
  show ?thesis
    using h sys_brk_fits[OF h]
    by (simp add: example_proc_def ireg_uintptr_def uintptr_ireg_def)
qed

text \<open>
  Claim C2. When the heap has to grow and the host refuses the mapping, \<open>sys_brk\<close> puts
  \<open>-ENOMEM\<close> (that is, -12) into \<open>a0\<close>; \<open>heap_end\<close>, the list of mapped segments and
  memory are as before. What the call leaves behind besides \<open>a0\<close> is the record of the
  refused \<open>mmap\<close> and the diagnostic of \<open>debug\<close>.
\<close>

theorem sys_brk_mmap_fails:
  fixes proc :: "'x::len riscv_processor_base"
  assumes grow:
    "\<not> (round_up (ireg_uintptr (ireg proc riscv_ireg_a0)) (page_size h) \<le> heap_end proc
        \<or> round_up (ireg_uintptr (ireg proc riscv_ireg_a0)) (page_size h)
            = round_up (heap_end proc) (page_size h))"
    and fails:
    "h_mmap h (events proc) (round_up (heap_end proc) (page_size h))
       (round_up (ireg_uintptr (ireg proc riscv_ireg_a0)) (page_size h)
          - round_up (heap_end proc) (page_size h))
       (PROT_READ OR PROT_WRITE) Anonymous = Failure e"
  shows "sys_brk h proc =
           proc\<lparr>ireg := (ireg proc)(riscv_ireg_a0 := - of_nat ENOMEM),
                events := events proc @
                  [Host_mmap (round_up (heap_end proc) (page_size h))
                     (round_up (ireg_uintptr (ireg proc riscv_ireg_a0)) (page_size h)
                        - round_up (heap_end proc) (page_size h))
                     (PROT_READ OR PROT_WRITE) Anonymous,
                   Debug (Brk_mmap_error e)]\<rparr>
         \<and> ireg (sys_brk h proc) riscv_ireg_a0 = - 12
         \<and> heap_end (sys_brk h proc) = heap_end proc
         \<and> mapped_segments (sys_brk h proc) = mapped_segments proc
         \<and> mem (sys_brk h proc) = mem proc"
proof -
  have "sys_brk h proc =
           proc\<lparr>ireg := (ireg proc)(riscv_ireg_a0 := - of_nat ENOMEM),
                events := events proc @
                  [Host_mmap (round_up (heap_end proc) (page_size h))
                     (round_up (ireg_uintptr (ireg proc riscv_ireg_a0)) (page_size h)
                        - round_up (heap_end proc) (page_size h))
                     (PROT_READ OR PROT_WRITE) Anonymous,
                   Debug (Brk_mmap_error e)]\<rparr>"
    using grow fails by (simp add: sys_brk_def Let_def set_ireg_def emit_def)
  then show ?thesis by (simp add: ENOMEM_def)
qed

theorem sys_brk_mmap_fails_witness:
  "ireg (sys_brk host_failing (example_proc\<lparr>ireg := (\<lambda>r. 0)(riscv_ireg_a0 := 0x14000)\<rparr>))
       riscv_ireg_a0 = - 12
   \<and> heap_end (sys_brk host_failing (example_proc\<lparr>ireg := (\<lambda>r. 0)(riscv_ireg_a0 := 0x14000)\<rparr>))
       = 0x12345
   \<and> mapped_segments
        (sys_brk host_failing (example_proc\<lparr>ireg := (\<lambda>r. 0)(riscv_ireg_a0 := 0x14000)\<rparr>))
       = [(0x10000, 0x2345)]
   \<and> events (sys_brk host_failing (example_proc\<lparr>ireg := (\<lambda>r. 0)(riscv_ireg_a0 := 0x14000)\<rparr>))
       = [Host_mmap 0x13000 0x1000 3 Anonymous, Debug (Brk_mmap_error 12)]"
proof -
  let ?p = "example_proc\<lparr>ireg := (\<lambda>r. 0)(riscv_ireg_a0 := 0x14000)\<rparr>"
  have r1: "round_up (ireg_uintptr (ireg ?p riscv_ireg_a0)) (page_size host_failing) = 0x14000"
    by (simp add: example_proc_def host_failing_def round_up_def ireg_uintptr_def)
  have r2: "round_up (heap_end ?p) (page_size host_failing) = 0x13000"
    by (simp add: example_proc_def host_failing_def round_up_def)
  have g: "\<not> (round_up (ireg_uintptr (ireg ?p riscv_ireg_a0)) (page_size host_failing)
                 \<le> heap_end ?p
              \<or> round_up (ireg_uintptr (ireg ?p riscv_ireg_a0)) (page_size host_failing)
                  = round_up (heap_end ?p) (page_size host_failing))"
    unfolding r1 r2 by (simp add: example_proc_def)
  have f: "h_mmap host_failing (events ?p) (round_up (heap_end ?p) (page_size host_failing))
       (round_up (ireg_uintptr (ireg ?p riscv_ireg_a0)) (page_size host_failing)
          - round_up (heap_end ?p) (page_size host_failing))
       (PROT_READ OR PROT_WRITE) Anonymous = Failure 12"
    by (simp add: host_failing_def)
  show ?thesis
    using sys_brk_mmap_fails[OF g f] unfolding r1 r2
    by (simp add: example_proc_def PROT_READ_def PROT_WRITE_def ENOMEM_def)
qed

text \<open>
  Claim C9. \<open>sys_brk\<close> never lowers \<open>heap_end\<close>: after the call it is what it was, or
  it is the requested address rounded up to the page size, and it is not below what it
  was. The list of mapped segments only grows at its end, and no \<open>munmap\<close> is among the
  host calls made. Nothing is assumed about the request: it may be below the break.
\<close>

theorem sys_brk_heap_end_monotone:
  fixes proc :: "'x::len riscv_processor_base"
  shows "heap_end proc \<le> heap_end (sys_brk h proc)
    \<and> (heap_end (sys_brk h proc) = heap_end proc
        \<or> heap_end (sys_brk h proc)
            = round_up (ireg_uintptr (ireg proc riscv_ireg_a0)) (page_size h))
    \<and> (\<exists>segs. mapped_segments (sys_brk h proc) = mapped_segments proc @ segs)
    \<and> (\<exists>es. events (sys_brk h proc) = events proc @ es
            \<and> (\<forall>a n. Host_munmap a n \<notin> set es))"
proof -
  let ?n = "round_up (ireg_uintptr (ireg proc riscv_ireg_a0)) (page_size h)"
  let ?c = "round_up (heap_end proc) (page_size h)"
  show ?thesis
  proof (cases "heap_end proc \<ge> ?n \<or> ?n = ?c")
    case True
    then have "sys_brk h proc =
        set_ireg riscv_ireg_a0 (uintptr_ireg (ireg_uintptr (ireg proc riscv_ireg_a0))) proc"
      by (simp add: sys_brk_def Let_def)
    then show ?thesis by (simp add: set_ireg_def)
  next
    case False
    then have lt: "heap_end proc \<le> ?n" by auto
    show ?thesis
    proof (cases "h_mmap h (events proc) ?c (?n - ?c) (PROT_READ OR PROT_WRITE) Anonymous")
      case (Failure e)
      with False show ?thesis
        by (simp add: sys_brk_def Let_def set_ireg_def emit_def)
    next
      case (Success u)
      with False lt show ?thesis
        by (simp add: sys_brk_def Let_def set_ireg_def emit_def)
    qed
  qed
qed

subsection \<open>write and fstat\<close>

text \<open>
  Claim C3 says that a failing \<open>write\<close> or \<open>fstat\<close> leaves \<open>-errno\<close> in \<open>a0\<close>. It
  does not: on a host whose \<open>write\<close> and \<open>fstat\<close> fail with \<open>errno\<close> 9, \<open>a0\<close> is not
  -9 after either call.
\<close>

theorem sys_write_failure_counterexample:
  "h_write host_failing (events example_proc) (ireg_int (ireg example_proc riscv_ireg_a0))
       (ireg_uintptr (ireg example_proc riscv_ireg_a1))
       (ireg_uintptr (ireg example_proc riscv_ireg_a2)) = Failure 9
   \<and> h_fstat host_failing (events example_proc) (ireg_int (ireg example_proc riscv_ireg_a0))
       = Failure 9
   \<and> ireg (sys_write host_failing example_proc) riscv_ireg_a0 \<noteq> - 9
   \<and> ireg (sys_fstat host_failing example_proc) riscv_ireg_a0 \<noteq> - 9"
  by (simp add: sys_write_def sys_fstat_def host_failing_def example_proc_def set_ireg_def
      emit_def Let_def)

text \<open>
  Claim C3, amended. The proxies assign what the host call returns: when the host's
  \<open>write\<close> or \<open>fstat\<close> fails, \<open>a0\<close> is -1 (all ones in XLEN bits), whatever \<open>errno\<close> is.
\<close>

theorem sys_write_fstat_failure:
  fixes proc :: "'x::len riscv_processor_base"
  shows "(h_write h (events proc) (ireg_int (ireg proc riscv_ireg_a0))
            (ireg_uintptr (ireg proc riscv_ireg_a1))
            (ireg_uintptr (ireg proc riscv_ireg_a2)) = Failure e
          \<longrightarrow> ireg (sys_write h proc) riscv_ireg_a0 = - 1)
       \<and> (h_fstat h (events proc) (ireg_int (ireg proc riscv_ireg_a0)) = Failure e
          \<longrightarrow> ireg (sys_fstat h proc) riscv_ireg_a0 = - 1)"
  by (simp add: sys_write_def sys_fstat_def set_ireg_def emit_def Let_def)

theorem sys_write_fstat_failure_witness:
  "ireg (sys_write host_failing example_proc) riscv_ireg_a0 = - 1
   \<and> ireg (sys_fstat host_failing example_proc) riscv_ireg_a0 = - 1"
  using sys_write_fstat_failure[of host_failing example_proc 9]
  by (simp add: host_failing_def)

text \<open>
  Claim C10. When the host's \<open>fstat\<close> fails, \<open>sys_fstat\<close> writes no guest memory: the
  processor is as before but for \<open>a0\<close>, which holds the result of the call; every other
  register and all of memory are unchanged. (The host call itself is recorded.)
\<close>

theorem sys_fstat_failure_frame:
  fixes proc :: "'x::len riscv_processor_base"
  assumes "h_fstat h (events proc) (ireg_int (ireg proc riscv_ireg_a0)) = Failure e"
  shows "sys_fstat h proc =
           proc\<lparr>ireg := (ireg proc)(riscv_ireg_a0 := - 1),
                events := events proc @ [Host_fstat (ireg_int (ireg proc riscv_ireg_a0))]\<rparr>
         \<and> mem (sys_fstat h proc) = mem proc
         \<and> (\<forall>r. r \<noteq> riscv_ireg_a0 \<longrightarrow> ireg (sys_fstat h proc) r = ireg proc r)"
  using assms by (simp add: sys_fstat_def set_ireg_def emit_def Let_def)

theorem sys_fstat_failure_frame_witness:
  "h_fstat host_failing (events (example_proc\<lparr>mem := (\<lambda>a. 0xAB)\<rparr>))
       (ireg_int (ireg (example_proc\<lparr>mem := (\<lambda>a. 0xAB)\<rparr>) riscv_ireg_a0)) = Failure 9
   \<and> mem (sys_fstat host_failing (example_proc\<lparr>mem := (\<lambda>a. 0xAB)\<rparr>)) = (\<lambda>a. 0xAB)
   \<and> ireg (sys_fstat host_failing (example_proc\<lparr>mem := (\<lambda>a. 0xAB)\<rparr>)) riscv_ireg_a0 = - 1
   \<and> ireg (sys_fstat host_failing (example_proc\<lparr>mem := (\<lambda>a. 0xAB)\<rparr>)) riscv_ireg_a1 = 0"
proof -
  let ?p = "example_proc\<lparr>mem := (\<lambda>a. 0xAB)\<rparr>"
  have f: "h_fstat host_failing (events ?p) (ireg_int (ireg ?p riscv_ireg_a0)) = Failure 9"
    by (simp add: host_failing_def)
  show ?thesis
    using f sys_fstat_failure_frame[OF f]
    by (simp add: example_proc_def riscv_ireg_a0_def riscv_ireg_a1_def)
qed

section \<open>Properties of the loader\<close>

text \<open>
  The loop of \<open>start\<close> tests \<open>p_flags\<close> against \<open>PT_LOAD\<close> and never reads \<open>p_type\<close>:
  whatever the types of the program headers are, the same segments are mapped.
\<close>

lemma load_segments_ignores_p_type:
  "load_segments h emu (map (\<lambda>phdr. phdr\<lparr>p_type := t phdr\<rparr>) hs) proc
     = load_segments h emu hs proc"
proof (induction hs arbitrary: proc)
  case Nil
  show ?case by simp
next
  case (Cons phdr rest)
  have m: "map_load_segment h emu proc (phdr\<lparr>p_type := t phdr\<rparr>) = map_load_segment h emu proc phdr"
    by (simp add: map_load_segment_def Let_def split: host_result.split)
  show ?case by (simp add: m Cons.IH split: sum.split)
qed

text \<open>
  Claim C4 says that the loader maps the program headers of type \<open>PT_LOAD\<close>, and only
  those. The loop of \<open>start\<close> selects by \<open>p_flags & PT_LOAD\<close>, the executable bit of
  the flags. So a header of type \<open>PT_LOAD\<close> with flags read and write (a data segment)
  is not mapped, a header of another type with the executable bit (here the program
  header table, readable and executable) is mapped, and of the three headers of the
  example executable the data segment is left out and the program header table is in.
\<close>

theorem load_segments_tests_p_flags:
  "p_type data_phdr = PT_LOAD
   \<and> load_segments host_ok example_emu [data_phdr] fresh_proc = Inr fresh_proc
   \<and> p_type phdr_phdr \<noteq> PT_LOAD
   \<and> map_sum id mapped_segments (load_segments host_ok example_emu [phdr_phdr] fresh_proc)
       = Inr [(0x10040, 0xA8)]
   \<and> map_sum id mapped_segments (load_segments host_ok example_emu (phdrs example_emu) fresh_proc)
       = Inr [(0x10040, 0xA8), (0x10000, 0x1000)]"
  by (simp add: data_phdr_def phdr_phdr_def text_phdr_def example_emu_def PT_LOAD_def
      map_load_segment_def host_ok_def fresh_proc_def emit_def Let_def)

section \<open>Properties of the stepper\<close>

subsection \<open>Fetching and formatting\<close>

lemma load_le_zero_mem: "load_le (\<lambda>x. 0) a n = 0"
  by (induction n arbitrary: a) simp_all

lemma inst_fetch_length:
  assumes "inst_fetch m a = (inst, len)"
  shows "len = 2 \<or> len = 4 \<or> len = 6 \<or> len = 8"
  using assms by (auto simp: inst_fetch_def Let_def split: if_splits)

lemma format_inst_hex:
  assumes "inst_fetch m a = (inst, len)"
  shows "format_inst m a = Hex (if len = 2 \<or> len = 4 then 8 else if len = 6 then 12 else 16) inst"
  using inst_fetch_length[OF assms] assms by (auto simp: format_inst_def)

subsection \<open>Passes of the loop\<close>

lemma step_passes_front:
  "step_passes (Suc n) c U h dec r =
     (case step_iteration c U h dec r of
        Inl a \<Rightarrow> Inl a
      | Inr (Continue, dec1, r1) \<Rightarrow> step_passes n c U h dec1 r1
      | Inr (Return b, dec1, r1) \<Rightarrow> Inr (Return b, dec1, r1))"
proof (induction n)
  case 0
  show ?case by (simp split: sum.split prod.split loop_ctl.split)
next
  case (Suc n)
  have "step_passes (Suc (Suc n)) c U h dec r =
          (case step_passes (Suc n) c U h dec r of
             Inl a \<Rightarrow> Inl a
           | Inr (Continue, dec1, r1) \<Rightarrow> step_iteration c U h dec1 r1
           | Inr (Return b, dec1, r1) \<Rightarrow> Inr (Return b, dec1, r1))"
    by simp
  also have "\<dots> =
          (case step_iteration c U h dec r of
             Inl a \<Rightarrow> Inl a
           | Inr (Continue, dec1, r1) \<Rightarrow> step_passes (Suc n) c U h dec1 r1
           | Inr (Return b, dec1, r1) \<Rightarrow> Inr (Return b, dec1, r1))"
    unfolding Suc.IH by (simp split: sum.split prod.split loop_ctl.split)
  finally show ?case .
qed

lemma step_loop_after_passes:
  assumes "0 < count"
    and "step_passes n c U h dec0 r0 = Inr (Continue, dec, r)"
  shows "step_loop (n + k) c U h count dec0 r0 = step_loop k c U h count dec r"
  using assms(2)
proof (induction n arbitrary: dec0 r0)
  case 0
  then show ?case by simp
next
  case (Suc n)
  from Suc.prems obtain d1 r1 where
    it: "step_iteration c U h dec0 r0 = Inr (Continue, d1, r1)"
    and rest: "step_passes n c U h d1 r1 = Inr (Continue, dec, r)"
    unfolding step_passes_front
    by (auto split: sum.splits prod.splits loop_ctl.splits)
  have "step_loop (Suc n + k) c U h count dec0 r0 = step_loop (n + k) c U h count d1 r1"
    using assms(1) by (simp add: it)
  also have "\<dots> = step_loop k c U h count dec r"
    by (rule Suc.IH[OF rest])
  finally show ?case .
qed

lemma step_iteration_handled:
  assumes "inst_fetch (mem (base r)) (ucast (pc (base r))) = (inst, len)"
    and "inst_cache_lookup c U (inst_cache r) dec inst = (dec1, cache1)"
    and "P_exec_inst U dec1 len (print_logs dec1 (base r)) = (True, proc3)"
  shows "step_iteration c U h dec r = Inr (Continue, dec1, \<lparr>base = proc3, inst_cache = cache1\<rparr>)"
  using assms by (simp add: step_iteration_def)

lemma step_iteration_illegal:
  assumes "inst_fetch (mem (base r)) (ucast (pc (base r))) = (inst, len)"
    and "inst_cache_lookup c U (inst_cache r) dec inst = (dec1, cache1)"
    and "P_exec_inst U dec1 len (print_logs dec1 (base r)) = (False, proc3)"
    and "op dec1 \<noteq> riscv_op_ecall U"
  shows "step_iteration c U h dec r =
           Inr (Return False, dec1,
                \<lparr>base = proc3\<lparr>events := events proc3 @
                     [Debug (Illegal_instruction (ucast (pc proc3))
                               (format_inst (mem proc3) (ucast (pc proc3))))]\<rparr>,
                 inst_cache = cache1\<rparr>)"
  using assms by (simp add: step_iteration_def emit_def)

lemma print_logs_off:
  "\<not> log_registers p \<Longrightarrow> \<not> log_instructions p \<Longrightarrow> print_logs d p = p"
  by (simp add: print_logs_def)

lemma load_le_4:
  "load_le m a 4 =
     ucast (m a) OR push_bit 8 (ucast (m (a + 1))) OR push_bit 16 (ucast (m (a + 2)))
       OR push_bit 24 (ucast (m (a + 3)))"
proof -
  have e: "(4 :: nat) = Suc (Suc (Suc (Suc 0)))" by simp
  show ?thesis unfolding e by (simp add: push_bit_or add.commute)
qed

lemma example_unit_decode:
  "P_decode_inst example_unit d w =
     \<lparr>imm = 0, rv_inst = ucast w, rvc_inst = 0,
      op = (if w = 0x13 then 1 else if w = 0x73 then 2 else 0), codec = 0\<rparr>"
  by (cases d) (simp add: example_unit_def decode_inst_def)

lemma nop_proc_fetch: "inst_fetch (mem nop_proc) (pc nop_proc) = (0x13, 4)"
  by (simp add: inst_fetch_def nop_proc_def fresh_proc_def load_le_4)

subsection \<open>Halting on an illegal instruction\<close>

text \<open>
  Claim C7. Let the loop of \<open>step\<close> have made \<open>n\<close> passes without leaving, and let
  the next pass fetch an instruction on whose record \<open>exec_inst\<close> returns false, the
  opcode of the record not being \<open>ecall\<close>. Then \<open>step\<close> returns false; it leaves the
  processor as \<open>exec_inst\<close> left it, with one more event, the diagnostic that carries
  the current program counter and the instruction at it as \<open>format_inst\<close> prints it:
  no system call is proxied and \<open>exit\<close> is not called. When \<open>exec_inst\<close> moved neither
  the program counter nor memory, the instruction printed is the word that was fetched.
  The loop of \<open>start\<close> then ends, returning the runner.
\<close>

theorem step_illegal_halts:
  fixes r :: "'x::len riscv_proxy_runner"
  assumes count: "0 < count"
    and passes: "step_passes n inst_cache_size U h decode_init r0 = Inr (Continue, dec, r)"
    and fetch: "inst_fetch (mem (base r)) (ucast (pc (base r))) = (inst, len)"
    and lookup: "inst_cache_lookup inst_cache_size U (inst_cache r) dec inst = (dec1, cache1)"
    and exec: "P_exec_inst U dec1 len (print_logs dec1 (base r)) = (False, proc3)"
    and not_ecall: "op dec1 \<noteq> riscv_op_ecall U"
  shows "step (n + Suc fuel) U h count r0 =
           Some (Inr (False,
             \<lparr>base = proc3\<lparr>events := events proc3 @
                  [Debug (Illegal_instruction (ucast (pc proc3))
                            (format_inst (mem proc3) (ucast (pc proc3))))]\<rparr>,
              inst_cache = cache1\<rparr>))
         \<and> (pc proc3 = pc (base r) \<and> mem proc3 = mem (base r) \<longrightarrow>
              format_inst (mem proc3) (ucast (pc proc3))
                = Hex (if len = 2 \<or> len = 4 then 8 else if len = 6 then 12 else 16) inst)
         \<and> (count = 1024 \<longrightarrow>
              run_loop (Suc (n + Suc fuel)) U h r0 =
                Some (Inr \<lparr>base = proc3\<lparr>events := events proc3 @
                  [Debug (Illegal_instruction (ucast (pc proc3))
                            (format_inst (mem proc3) (ucast (pc proc3))))]\<rparr>,
                  inst_cache = cache1\<rparr>))"
proof -
  let ?r = "\<lparr>base = proc3\<lparr>events := events proc3 @
                  [Debug (Illegal_instruction (ucast (pc proc3))
                            (format_inst (mem proc3) (ucast (pc proc3))))]\<rparr>,
              inst_cache = cache1\<rparr>"
  have it: "step_iteration inst_cache_size U h dec r = Inr (Return False, dec1, ?r)"
    using fetch lookup exec not_ecall by (simp add: step_iteration_def emit_def)
  have "step_loop (Suc fuel) inst_cache_size U h count dec r = Some (Inr (False, ?r))"
    using count by (simp add: it)
  then have st: "step (n + Suc fuel) U h count r0 = Some (Inr (False, ?r))"
    unfolding step_def using step_loop_after_passes[OF count passes, of "Suc fuel"] by simp
  have fm: "pc proc3 = pc (base r) \<and> mem proc3 = mem (base r) \<longrightarrow>
              format_inst (mem proc3) (ucast (pc proc3))
                = Hex (if len = 2 \<or> len = 4 then 8 else if len = 6 then 12 else 16) inst"
    using format_inst_hex[OF fetch] by simp
  have rl: "count = 1024 \<longrightarrow> run_loop (Suc (n + Suc fuel)) U h r0 = Some (Inr ?r)"
    using st by auto
  from st fm rl show ?thesis by blast
qed

theorem step_illegal_halts_witness:
  "step (0 + Suc 0) example_unit host_ok 1024 \<lparr>base = fresh_proc, inst_cache = zero_cache\<rparr>
     = Some (Inr (False,
         \<lparr>base = fresh_proc\<lparr>events := [Debug (Illegal_instruction 0x10000 (Hex 8 0))]\<rparr>,
          inst_cache = zero_cache\<rparr>))
   \<and> run_loop (Suc (0 + Suc 0)) example_unit host_ok \<lparr>base = fresh_proc, inst_cache = zero_cache\<rparr>
     = Some (Inr \<lparr>base = fresh_proc\<lparr>events := [Debug (Illegal_instruction 0x10000 (Hex 8 0))]\<rparr>,
                  inst_cache = zero_cache\<rparr>)"
proof -
  let ?r = "\<lparr>base = fresh_proc, inst_cache = zero_cache\<rparr>"
  have c: "(0 :: size_t) < 1024" by simp
  have p: "step_passes 0 inst_cache_size example_unit host_ok decode_init ?r
             = Inr (Continue, decode_init, ?r)"
    by simp
  have f: "inst_fetch (mem (base ?r)) (ucast (pc (base ?r))) = (0, 2)"
    by (simp add: inst_fetch_def fresh_proc_def load_le_zero_mem)
  have l: "inst_cache_lookup inst_cache_size example_unit (inst_cache ?r) decode_init 0
             = (decode_init, zero_cache)"
    by (simp add: inst_cache_lookup_def zero_cache_def)
  have x: "P_exec_inst example_unit decode_init 2 (print_logs decode_init (base ?r))
             = (False, fresh_proc)"
    by (simp add: example_unit_def decode_init_def print_logs_def fresh_proc_def)
  have n: "op decode_init \<noteq> riscv_op_ecall example_unit"
    by (simp add: example_unit_def decode_init_def)
  have fm: "format_inst (mem fresh_proc) (ucast (pc fresh_proc)) = Hex 8 0"
    using format_inst_hex[of "mem fresh_proc" "ucast (pc fresh_proc)" 0 2] f by simp
  show ?thesis
    using step_illegal_halts[OF c p f l x n, of 0]
    by (simp add: fm) (simp add: fresh_proc_def)
qed

subsection \<open>The decode cache\<close>

lemma inst_cache_lookup_coherent:
  assumes cf: "\<forall>d d' w. P_decode_inst U d w = P_decode_inst U d' w"
    and coh: "\<forall>k. cache_dec (cache k) = P_decode_inst U decode_init (cache_inst (cache k))"
  shows "fst (inst_cache_lookup c U cache d w) = P_decode_inst U decode_init w"
    and "\<forall>k. cache_dec (snd (inst_cache_lookup c U cache d w) k)
               = P_decode_inst U decode_init (cache_inst (snd (inst_cache_lookup c U cache d w) k))"
proof -
  have fresh: "P_decode_inst U d w = P_decode_inst U decode_init w"
    using cf by blast
  show "fst (inst_cache_lookup c U cache d w) = P_decode_inst U decode_init w"
  proof (cases "cache_inst (cache (w mod c)) = w")
    case True
    then have "fst (inst_cache_lookup c U cache d w) = cache_dec (cache (w mod c))"
      by (simp add: inst_cache_lookup_def)
    also have "\<dots> = P_decode_inst U decode_init (cache_inst (cache (w mod c)))"
      using coh by blast
    finally show ?thesis using True by simp
  next
    case False
    then show ?thesis by (simp add: inst_cache_lookup_def Let_def fresh)
  qed
  show "\<forall>k. cache_dec (snd (inst_cache_lookup c U cache d w) k)
               = P_decode_inst U decode_init (cache_inst (snd (inst_cache_lookup c U cache d w) k))"
    using coh by (simp add: inst_cache_lookup_def Let_def fresh)
qed

lemma step_iteration_cache_independent:
  fixes r1 r2 :: "'x::len riscv_proxy_runner"
  assumes cf: "\<forall>d d' w. P_decode_inst U d w = P_decode_inst U d' w"
    and coh1: "\<forall>k. cache_dec (inst_cache r1 k)
                      = P_decode_inst U decode_init (cache_inst (inst_cache r1 k))"
    and coh2: "\<forall>k. cache_dec (inst_cache r2 k)
                      = P_decode_inst U decode_init (cache_inst (inst_cache r2 k))"
    and same: "base r1 = base r2"
  shows "(\<exists>a. step_iteration c1 U h d1 r1 = Inl a \<and> step_iteration c2 U h d2 r2 = Inl a)
       \<or> (\<exists>ctl d q1 q2.
             step_iteration c1 U h d1 r1 = Inr (ctl, d, q1)
           \<and> step_iteration c2 U h d2 r2 = Inr (ctl, d, q2)
           \<and> base q1 = base q2
           \<and> (\<forall>k. cache_dec (inst_cache q1 k)
                      = P_decode_inst U decode_init (cache_inst (inst_cache q1 k)))
           \<and> (\<forall>k. cache_dec (inst_cache q2 k)
                      = P_decode_inst U decode_init (cache_inst (inst_cache q2 k))))"
proof -
  obtain inst len where f: "inst_fetch (mem (base r2)) (ucast (pc (base r2))) = (inst, len)"
    by (cases "inst_fetch (mem (base r2)) (ucast (pc (base r2)))")
  define D where "D = P_decode_inst U decode_init inst"
  obtain x1 k1 where l1: "inst_cache_lookup c1 U (inst_cache r1) d1 inst = (x1, k1)"
    by (cases "inst_cache_lookup c1 U (inst_cache r1) d1 inst")
  obtain x2 k2 where l2: "inst_cache_lookup c2 U (inst_cache r2) d2 inst = (x2, k2)"
    by (cases "inst_cache_lookup c2 U (inst_cache r2) d2 inst")
  have x1: "x1 = D" and k1: "\<forall>k. cache_dec (k1 k) = P_decode_inst U decode_init (cache_inst (k1 k))"
    using inst_cache_lookup_coherent[OF cf coh1, of c1 d1 inst] by (simp_all add: l1 D_def)
  have x2: "x2 = D" and k2: "\<forall>k. cache_dec (k2 k) = P_decode_inst U decode_init (cache_inst (k2 k))"
    using inst_cache_lookup_coherent[OF cf coh2, of c2 d2 inst] by (simp_all add: l2 D_def)
  obtain ok p3 where e: "P_exec_inst U D len (print_logs D (base r2)) = (ok, p3)"
    by (cases "P_exec_inst U D len (print_logs D (base r2))")
  show ?thesis
  proof (cases ok)
    case True
    then show ?thesis
      using f l1 l2 e k1 k2 by (simp add: step_iteration_def same x1 x2)
  next
    case False
    show ?thesis
    proof (cases "op D = riscv_op_ecall U")
      case ne: False
      with False show ?thesis
        using f l1 l2 e k1 k2 by (simp add: step_iteration_def same x1 x2)
    next
      case ec: True
      show ?thesis
      proof (cases "proxy_syscall h p3")
        case (Inl a)
        with False ec show ?thesis
          using f l1 l2 e by (simp add: step_iteration_def same x1 x2)
      next
        case (Inr p4)
        with False ec show ?thesis
          using f l1 l2 e k1 k2 by (simp add: step_iteration_def same x1 x2)
      qed
    qed
  qed
qed

lemma step_passes_cache_independent:
  fixes r1 r2 :: "'x::len riscv_proxy_runner"
  assumes cf: "\<forall>d d' w. P_decode_inst U d w = P_decode_inst U d' w"
    and coh1: "\<forall>k. cache_dec (inst_cache r1 k)
                      = P_decode_inst U decode_init (cache_inst (inst_cache r1 k))"
    and coh2: "\<forall>k. cache_dec (inst_cache r2 k)
                      = P_decode_inst U decode_init (cache_inst (inst_cache r2 k))"
    and same: "base r1 = base r2"
  shows "(\<exists>a. step_passes n c1 U h d0 r1 = Inl a \<and> step_passes n c2 U h d0 r2 = Inl a)
       \<or> (\<exists>ctl d q1 q2.
             step_passes n c1 U h d0 r1 = Inr (ctl, d, q1)
           \<and> step_passes n c2 U h d0 r2 = Inr (ctl, d, q2)
           \<and> base q1 = base q2
           \<and> (\<forall>k. cache_dec (inst_cache q1 k)
                      = P_decode_inst U decode_init (cache_inst (inst_cache q1 k)))
           \<and> (\<forall>k. cache_dec (inst_cache q2 k)
                      = P_decode_inst U decode_init (cache_inst (inst_cache q2 k))))"
proof (induction n)
  case 0
  show ?case using coh1 coh2 same by simp
next
  case (Suc n)
  from Suc.IH show ?case
  proof (elim disjE exE conjE)
    fix a
    assume "step_passes n c1 U h d0 r1 = Inl a" "step_passes n c2 U h d0 r2 = Inl a"
    then show ?thesis by simp
  next
    fix ctl d q1 q2
    assume p1: "step_passes n c1 U h d0 r1 = Inr (ctl, d, q1)"
      and p2: "step_passes n c2 U h d0 r2 = Inr (ctl, d, q2)"
      and b: "base q1 = base q2"
      and k1: "\<forall>k. cache_dec (inst_cache q1 k)
                      = P_decode_inst U decode_init (cache_inst (inst_cache q1 k))"
      and k2: "\<forall>k. cache_dec (inst_cache q2 k)
                      = P_decode_inst U decode_init (cache_inst (inst_cache q2 k))"
    show ?thesis
    proof (cases ctl)
      case Continue
      then have "step_passes (Suc n) c1 U h d0 r1 = step_iteration c1 U h d q1"
        and "step_passes (Suc n) c2 U h d0 r2 = step_iteration c2 U h d q2"
        by (simp_all add: p1 p2)
      then show ?thesis
        using step_iteration_cache_independent[OF cf k1 k2 b, of c1 h d c2 d] by simp
    next
      case (Return x)
      then show ?thesis using p1 p2 b k1 k2 by simp
    qed
  qed
qed

lemma step_loop_cache_independent:
  fixes r1 r2 :: "'x::len riscv_proxy_runner"
  assumes cf: "\<forall>d d' w. P_decode_inst U d w = P_decode_inst U d' w"
    and coh1: "\<forall>k. cache_dec (inst_cache r1 k)
                      = P_decode_inst U decode_init (cache_inst (inst_cache r1 k))"
    and coh2: "\<forall>k. cache_dec (inst_cache r2 k)
                      = P_decode_inst U decode_init (cache_inst (inst_cache r2 k))"
    and same: "base r1 = base r2"
  shows "map_option (map_sum id (map_prod id base)) (step_loop fuel c1 U h count d1 r1)
       = map_option (map_sum id (map_prod id base)) (step_loop fuel c2 U h count d2 r2)"
  using coh1 coh2 same
proof (induction fuel arbitrary: d1 d2 r1 r2)
  case 0
  then show ?case by simp
next
  case (Suc fuel)
  show ?case
  proof (cases "0 < count")
    case False
    then show ?thesis using Suc.prems by simp
  next
    case True
    from step_iteration_cache_independent[OF cf Suc.prems, of c1 h d1 c2 d2]
    show ?thesis
    proof (elim disjE exE conjE)
      fix a
      assume "step_iteration c1 U h d1 r1 = Inl a" "step_iteration c2 U h d2 r2 = Inl a"
      then show ?thesis using True by simp
    next
      fix ctl d q1 q2
      assume i1: "step_iteration c1 U h d1 r1 = Inr (ctl, d, q1)"
        and i2: "step_iteration c2 U h d2 r2 = Inr (ctl, d, q2)"
        and b: "base q1 = base q2"
        and k1: "\<forall>k. cache_dec (inst_cache q1 k)
                      = P_decode_inst U decode_init (cache_inst (inst_cache q1 k))"
        and k2: "\<forall>k. cache_dec (inst_cache q2 k)
                      = P_decode_inst U decode_init (cache_inst (inst_cache q2 k))"
      show ?thesis
      proof (cases ctl)
        case Continue
        then show ?thesis
          using True i1 i2 Suc.IH[OF k1 k2 b, of d d] by simp
      next
        case (Return x)
        then show ?thesis using True i1 i2 b by simp
      qed
    qed
  qed
qed

text \<open>
  What the lookup does right. Take a decoder whose result depends on the instruction
  word alone, and two caches in which every slot holds the decode of the word it stores,
  as every slot does that a miss has written. Then the size of the cache is not
  observable: a cache of one entry and the cache of 8191 entries give the same control
  decision, the same executed record and the same processor after every number of
  passes, and the record a lookup yields is the fresh decode of the word looked up. The
  premise on the slots is not something \<open>start\<close> establishes.
\<close>

lemma decode_cache_coherent_runs_agree:
  fixes r1 r2 :: "'x::len riscv_proxy_runner"
  assumes cf: "\<forall>d d' w. P_decode_inst U d w = P_decode_inst U d' w"
    and coh1: "\<forall>k. cache_dec (inst_cache r1 k)
                      = P_decode_inst U decode_init (cache_inst (inst_cache r1 k))"
    and coh2: "\<forall>k. cache_dec (inst_cache r2 k)
                      = P_decode_inst U decode_init (cache_inst (inst_cache r2 k))"
    and same: "base r1 = base r2"
  shows "map_sum id (map_prod id (map_prod id base)) (step_passes n 1 U h decode_init r1)
           = map_sum id (map_prod id (map_prod id base))
               (step_passes n inst_cache_size U h decode_init r2)
       \<and> map_option (map_sum id (map_prod id base)) (step_loop fuel 1 U h count decode_init r1)
           = map_option (map_sum id (map_prod id base)) (step fuel U h count r2)
       \<and> fst (inst_cache_lookup 1 U (inst_cache r1) d w) = P_decode_inst U decode_init w
       \<and> fst (inst_cache_lookup inst_cache_size U (inst_cache r2) d w)
           = P_decode_inst U decode_init w"
proof -
  have a: "map_sum id (map_prod id (map_prod id base)) (step_passes n 1 U h decode_init r1)
           = map_sum id (map_prod id (map_prod id base))
               (step_passes n inst_cache_size U h decode_init r2)"
    using step_passes_cache_independent[OF cf coh1 coh2 same, of n 1 h decode_init inst_cache_size]
    by auto
  have b: "map_option (map_sum id (map_prod id base)) (step_loop fuel 1 U h count decode_init r1)
           = map_option (map_sum id (map_prod id base)) (step fuel U h count r2)"
    unfolding step_def by (rule step_loop_cache_independent[OF cf coh1 coh2 same])
  show ?thesis
    using a b inst_cache_lookup_coherent(1)[OF cf coh1] inst_cache_lookup_coherent(1)[OF cf coh2]
    by simp
qed

lemma decode_cache_coherent_runs_agree_example:
  "map_sum id (map_prod id (map_prod id base))
       (step_passes 2 1 example_unit host_ok decode_init
          \<lparr>base = nop_proc, inst_cache = zero_cache\<rparr>)
     = map_sum id (map_prod id (map_prod id base))
         (step_passes 2 inst_cache_size example_unit host_ok decode_init
            \<lparr>base = nop_proc, inst_cache = zero_cache\<rparr>)
   \<and> map_sum id (map_prod id (map_prod id base))
         (step_passes 2 inst_cache_size example_unit host_ok decode_init
            \<lparr>base = nop_proc, inst_cache = zero_cache\<rparr>)
     = Inr (Return False, decode_init,
            nop_proc\<lparr>pc := 0x10004,
                      events := [Debug (Illegal_instruction 0x10004 (Hex 8 0))]\<rparr>)
   \<and> fst (inst_cache_lookup inst_cache_size example_unit zero_cache decode_init 0x13)
       = P_decode_inst example_unit decode_init 0x13
   \<and> (\<forall>d d' w. P_decode_inst example_unit d w = P_decode_inst example_unit d' w)
   \<and> (\<forall>k. cache_dec (zero_cache k)
             = P_decode_inst example_unit decode_init (cache_inst (zero_cache k)))"
proof -
  let ?r = "\<lparr>base = nop_proc, inst_cache = zero_cache\<rparr>"
  let ?D = "P_decode_inst example_unit decode_init 0x13"
  have cf: "\<forall>d d' w. P_decode_inst example_unit d w = P_decode_inst example_unit d' w"
    by (simp add: example_unit_decode)
  have coh: "\<forall>k. cache_dec (inst_cache ?r k)
                   = P_decode_inst example_unit decode_init (cache_inst (inst_cache ?r k))"
    by (simp add: zero_cache_def example_unit_decode decode_init_def)
  have same: "base ?r = base ?r" by simp
  note t = decode_cache_coherent_runs_agree[OF cf coh coh same,
      where n = 2 and h = host_ok and fuel = 0 and count = 0 and d = decode_init and w = "0x13"]
  \<comment> \<open>the first pass: a miss, the instruction is decoded and executed\<close>
  have nl: "print_logs d (nop_proc\<lparr>pc := a\<rparr>) = nop_proc\<lparr>pc := a\<rparr>" for d a
    by (rule print_logs_off) (simp_all add: nop_proc_def fresh_proc_def)
  have f1: "inst_fetch (mem (base ?r)) (ucast (pc (base ?r))) = (0x13, 4)"
    by (simp add: nop_proc_fetch)
  have k: "(0x13 :: 64 word) mod inst_cache_size = 19" by (simp add: inst_cache_size_def)
  have l1: "inst_cache_lookup inst_cache_size example_unit (inst_cache ?r) decode_init 0x13
              = (?D, zero_cache(19 := \<lparr>cache_inst = 0x13, cache_dec = ?D\<rparr>))"
    by (simp add: inst_cache_lookup_def k zero_cache_def Let_def)
  have x1: "P_exec_inst example_unit ?D 4 (print_logs ?D (base ?r))
              = (True, nop_proc\<lparr>pc := 0x10004\<rparr>)"
    using nl[of ?D "pc nop_proc"]
    by (simp add: example_unit_decode) (simp add: example_unit_def nop_proc_def fresh_proc_def)
  have i1: "step_iteration inst_cache_size example_unit host_ok decode_init ?r
              = Inr (Continue, ?D,
                     \<lparr>base = nop_proc\<lparr>pc := 0x10004\<rparr>,
                      inst_cache = zero_cache(19 := \<lparr>cache_inst = 0x13, cache_dec = ?D\<rparr>)\<rparr>)"
    by (rule step_iteration_handled[OF f1 l1 x1])
  \<comment> \<open>the second pass: the zero word hits slot 0 and is illegal\<close>
  let ?q = "\<lparr>base = nop_proc\<lparr>pc := 0x10004\<rparr>,
             inst_cache = zero_cache(19 := \<lparr>cache_inst = 0x13, cache_dec = ?D\<rparr>)\<rparr>"
  have f2: "inst_fetch (mem (base ?q)) (ucast (pc (base ?q))) = (0, 2)"
    by (simp add: inst_fetch_def nop_proc_def fresh_proc_def load_le_4)
  have l2: "inst_cache_lookup inst_cache_size example_unit (inst_cache ?q) ?D 0
              = (decode_init, inst_cache ?q)"
    by (simp add: inst_cache_lookup_def zero_cache_def)
  have x2: "P_exec_inst example_unit decode_init 2 (print_logs decode_init (base ?q))
              = (False, nop_proc\<lparr>pc := 0x10004\<rparr>)"
    by (simp add: nl) (simp add: example_unit_def decode_init_def)
  have ne: "op decode_init \<noteq> riscv_op_ecall example_unit"
    by (simp add: example_unit_def decode_init_def)
  have fm: "format_inst (mem (nop_proc\<lparr>pc := 0x10004\<rparr>)) (ucast (pc (nop_proc\<lparr>pc := 0x10004\<rparr>)))
              = Hex 8 0"
    using format_inst_hex[OF f2] by simp
  have i2: "step_iteration inst_cache_size example_unit host_ok ?D ?q
              = Inr (Return False, decode_init,
                     \<lparr>base = nop_proc\<lparr>pc := 0x10004,
                               events := [Debug (Illegal_instruction 0x10004 (Hex 8 0))]\<rparr>,
                      inst_cache = inst_cache ?q\<rparr>)"
    using step_iteration_illegal[OF f2 l2 x2 ne, of host_ok] fm
    by (simp add: nop_proc_def fresh_proc_def)
  have two: "step_passes 2 inst_cache_size example_unit host_ok decode_init ?r
              = Inr (Return False, decode_init,
                     \<lparr>base = nop_proc\<lparr>pc := 0x10004,
                               events := [Debug (Illegal_instruction 0x10004 (Hex 8 0))]\<rparr>,
                      inst_cache = inst_cache ?q\<rparr>)"
    unfolding numeral_2_eq_2 by (simp add: i1 i2)
  show ?thesis
    using t cf coh by (simp add: two)
qed

text \<open>
  Claim C5. The claim is that the cache is transparent: for a guest that does not modify
  its code, a cache of one entry and the cache of 8191 entries give the same states, and
  the record the stepper executes is the fresh decode of the fetched word. The code
  misses that. \<open>start\<close> declares the runner as a local object; the constructor of each
  cached record runs, and nothing sets the \<open>inst\<close> members of the cache. Take the cache
  in which the unset \<open>inst\<close> member of slot 19 holds \<open>0x13\<close> (it is a cache as \<open>start\<close>
  hands it to the loop: constructing its records changes nothing), and a guest whose
  first instruction is \<open>addi x0, x0, 0\<close>, the word \<open>0x13\<close>. With 8191 entries the lookup
  hits slot 19 and yields the zeroed record of the constructor instead of the decode of
  \<open>0x13\<close>, and the first pass halts the run on an illegal instruction. With one entry,
  from the same cache, the lookup misses, the instruction is decoded and executed, and
  the run continues at \<open>0x10004\<close>.
\<close>

theorem decode_cache_unset_slot_hit:
  "(\<lambda>k. (unset_cache k)\<lparr>cache_dec := decode_init\<rparr>) = unset_cache
   \<and> inst_fetch (mem nop_proc) (ucast (pc nop_proc)) = (0x13, 4)
   \<and> fst (inst_cache_lookup inst_cache_size example_unit unset_cache decode_init 0x13)
       = decode_init
   \<and> P_decode_inst example_unit decode_init 0x13
       = \<lparr>imm = 0, rv_inst = 0x13, rvc_inst = 0, op = 1, codec = 0\<rparr>
   \<and> decode_init = \<lparr>imm = 0, rv_inst = 0, rvc_inst = 0, op = 0, codec = 0\<rparr>
   \<and> map_sum id (map_prod id (map_prod id base))
         (step_passes 1 inst_cache_size example_unit host_ok decode_init
            \<lparr>base = nop_proc, inst_cache = unset_cache\<rparr>)
       = Inr (Return False, decode_init,
              nop_proc\<lparr>events := [Debug (Illegal_instruction 0x10000 (Hex 8 0x13))]\<rparr>)
   \<and> map_sum id (map_prod id (map_prod id base))
         (step_passes 1 1 example_unit host_ok decode_init
            \<lparr>base = nop_proc, inst_cache = unset_cache\<rparr>)
       = Inr (Continue, P_decode_inst example_unit decode_init 0x13,
              nop_proc\<lparr>pc := 0x10004\<rparr>)"
proof -
  let ?D = "P_decode_inst example_unit decode_init 0x13"
  let ?r = "\<lparr>base = nop_proc, inst_cache = unset_cache\<rparr>"
  have c: "(\<lambda>k. (unset_cache k)\<lparr>cache_dec := decode_init\<rparr>) = unset_cache"
    by (rule ext) (simp add: unset_cache_def zero_cache_def)
  have f0: "inst_fetch (mem nop_proc) (ucast (pc nop_proc)) = (0x13, 4)"
    by (simp add: nop_proc_fetch)
  have f: "inst_fetch (mem (base ?r)) (ucast (pc (base ?r))) = (0x13, 4)"
    by (simp add: nop_proc_fetch)
  have k: "(0x13 :: 64 word) mod inst_cache_size = 19" by (simp add: inst_cache_size_def)
  have l2: "inst_cache_lookup inst_cache_size example_unit (inst_cache ?r) decode_init 0x13
              = (decode_init, unset_cache)"
    by (simp add: inst_cache_lookup_def k unset_cache_def)
  have l1: "inst_cache_lookup 1 example_unit (inst_cache ?r) decode_init 0x13
              = (?D, unset_cache(0 := \<lparr>cache_inst = 0x13, cache_dec = ?D\<rparr>))"
    by (simp add: inst_cache_lookup_def unset_cache_def zero_cache_def Let_def)
  have d: "?D = \<lparr>imm = 0, rv_inst = 0x13, rvc_inst = 0, op = 1, codec = 0\<rparr>"
    by (simp add: example_unit_decode)
  have nl: "print_logs x nop_proc = nop_proc" for x
    by (rule print_logs_off) (simp_all add: nop_proc_def fresh_proc_def)
  have x1: "P_exec_inst example_unit ?D 4 (print_logs ?D (base ?r))
              = (True, nop_proc\<lparr>pc := 0x10004\<rparr>)"
    by (simp add: nl) (simp add: d, simp add: example_unit_def nop_proc_def fresh_proc_def)
  have x2: "P_exec_inst example_unit decode_init 4 (print_logs decode_init (base ?r))
              = (False, nop_proc)"
    by (simp add: nl) (simp add: example_unit_def decode_init_def)
  have ne: "op decode_init \<noteq> riscv_op_ecall example_unit"
    by (simp add: example_unit_def decode_init_def)
  have fm: "format_inst (mem nop_proc) (ucast (pc nop_proc)) = Hex 8 0x13"
    using format_inst_hex[OF f0] by simp
  have fm': "format_inst (mem nop_proc) 0x10000 = Hex 8 0x13"
    using fm by (simp add: nop_proc_def fresh_proc_def)
  have pcv: "(ucast (pc nop_proc) :: 64 word) = 0x10000"
    by (simp add: nop_proc_def fresh_proc_def)
  have p2: "step_passes 1 inst_cache_size example_unit host_ok decode_init ?r
              = Inr (Return False, decode_init,
                     \<lparr>base = nop_proc\<lparr>events := events nop_proc @
                        [Debug (Illegal_instruction (ucast (pc nop_proc))
                                  (format_inst (mem nop_proc) (ucast (pc nop_proc))))]\<rparr>,
                      inst_cache = unset_cache\<rparr>)"
    using step_iteration_illegal[OF f l2 x2 ne, of host_ok] by simp
  have ev: "events nop_proc = []" by (simp add: nop_proc_def fresh_proc_def)
  have p1: "step_passes 1 1 example_unit host_ok decode_init ?r
              = Inr (Continue, ?D,
                     \<lparr>base = nop_proc\<lparr>pc := 0x10004\<rparr>,
                      inst_cache = unset_cache(0 := \<lparr>cache_inst = 0x13, cache_dec = ?D\<rparr>)\<rparr>)"
    using step_iteration_handled[OF f l1 x1, of host_ok] by simp
  have l2': "fst (inst_cache_lookup inst_cache_size example_unit unset_cache decode_init 0x13)
               = decode_init"
    using l2 by simp
  have a: "map_sum id (map_prod id (map_prod id base))
         (step_passes 1 inst_cache_size example_unit host_ok decode_init ?r)
       = Inr (Return False, decode_init,
              nop_proc\<lparr>events := [Debug (Illegal_instruction 0x10000 (Hex 8 0x13))]\<rparr>)"
    unfolding p2 pcv ev by (simp add: fm')
  have b: "map_sum id (map_prod id (map_prod id base))
         (step_passes 1 1 example_unit host_ok decode_init ?r)
       = Inr (Continue, ?D, nop_proc\<lparr>pc := 0x10004\<rparr>)"
    unfolding p1 by simp
  have di: "decode_init = \<lparr>imm = 0, rv_inst = 0, rvc_inst = 0, op = 0, codec = 0\<rparr>"
    by (simp add: decode_init_def)
  from c f0 l2' d di a b show ?thesis by (intro conjI)
qed

section \<open>Properties of the stat conversion\<close>

subsection \<open>Loads and stores\<close>

lemma store_le_outside:
  assumes "\<not> (x - b < of_nat nb)"
  shows "store_le m b nb v x = m x"
  using assms by (simp add: store_le_def)

lemma load_le_cong:
  assumes "\<And>i. i < n \<Longrightarrow> m1 (a + of_nat i) = m2 (a + of_nat i)"
  shows "load_le m1 a n = load_le m2 a n"
  using assms
proof (induction n arbitrary: a)
  case 0
  show ?case by simp
next
  case (Suc n)
  have h: "m1 a = m2 a" using Suc.prems[of 0] by simp
  have "load_le m1 (a + 1) n = load_le m2 (a + 1) n"
  proof (rule Suc.IH)
    fix i assume "i < n"
    then have "m1 (a + of_nat (Suc i)) = m2 (a + of_nat (Suc i))"
      by (intro Suc.prems) simp
    then show "m1 (a + 1 + of_nat i) = m2 (a + 1 + of_nat i)"
      by (simp add: add.assoc)
  qed
  with h show ?case by simp
qed

lemma offset_outside:
  fixes o1 o2 :: "64 word"
  assumes sep: "unat o1 + n \<le> unat o2 \<or> unat o2 + nb \<le> unat o1"
    and b2: "unat o2 + nb \<le> 2 ^ 64"
    and b1: "unat o1 + n \<le> 2 ^ 64"
    and i: "i < n"
  shows "\<not> ((addr + o1 + of_nat i) - (addr + o2) < of_nat nb)"
proof -
  have e: "(addr + o1 + of_nat i) - (addr + o2) = o1 + of_nat i - o2" by simp
  have il: "unat o1 + i < 2 ^ 64" using i b1 by simp
  then have ui: "unat (of_nat i :: 64 word) = i" by (simp add: unat_of_nat)
  have "unat o1 + unat (of_nat i :: 64 word) < 2 ^ LENGTH(64)" using il ui by simp
  then have s: "unat (o1 + of_nat i) = unat o1 + i"
    using ui by (simp only: unat_add_lem[THEN iffD1])
  have "nb \<le> unat (o1 + of_nat i - o2)"
  proof (cases "unat o2 + nb \<le> unat o1")
    case True
    then have "o2 \<le> o1 + of_nat i" by (simp add: word_le_nat_alt s)
    then have "unat (o1 + of_nat i - o2) = unat o1 + i - unat o2"
      by (simp add: unat_sub s)
    with True show ?thesis by simp
  next
    case False
    with sep have lt: "unat o1 + n \<le> unat o2" by simp
    then have l: "unat o1 + i < unat o2" using i by simp
    then have "unat (o1 + of_nat i - o2) = 2 ^ 64 + (unat o1 + i) - unat o2"
      by (simp add: unat_sub_if' s)
    with b2 show ?thesis by simp
  qed
  moreover have "unat (of_nat nb :: 64 word) \<le> nb"
    by (simp add: unat_of_nat)
  ultimately show ?thesis unfolding e by (simp add: word_less_nat_alt)
qed

lemma load_store_frame:
  fixes o1 o2 :: "64 word"
  assumes "unat o1 + n \<le> unat o2 \<or> unat o2 + nb \<le> unat o1"
    and "unat o2 + nb \<le> 2 ^ 64"
    and "unat o1 + n \<le> 2 ^ 64"
  shows "load_le (store_le m (addr + o2) nb v) (addr + o1) n = load_le m (addr + o1) n"
proof (rule load_le_cong)
  fix i assume "i < n"
  from offset_outside[OF assms this, of addr]
  show "store_le m (addr + o2) nb v (addr + o1 + of_nat i) = m (addr + o1 + of_nat i)"
    by (rule store_le_outside)
qed

lemma byte_split:
  fixes w :: "64 word"
  shows "ucast (ucast w :: 8 word) OR push_bit 8 (take_bit (8 * n) (drop_bit 8 w))
           = take_bit (8 * Suc n) w"
proof (rule bit_word_eqI)
  fix i assume il: "i < LENGTH(64)"
  show "bit (ucast (ucast w :: 8 word) OR push_bit 8 (take_bit (8 * n) (drop_bit 8 w))) i
          = bit (take_bit (8 * Suc n) w) i"
  proof (cases "i < 8")
    case True
    then show ?thesis
      by (simp add: bit_or_iff bit_ucast_iff bit_push_bit_iff bit_take_bit_iff)
  next
    case False
    then have "i - 8 < 8 * n \<longleftrightarrow> i < 8 * Suc n" by arith
    with False il show ?thesis
      by (simp add: bit_or_iff bit_ucast_iff bit_push_bit_iff bit_take_bit_iff bit_drop_bit_eq)
  qed
qed

lemma load_store_part:
  assumes "k + n \<le> N" "N \<le> 8"
  shows "load_le (store_le m a N v) (a + of_nat k) n = take_bit (8 * n) (drop_bit (8 * k) v)"
  using assms(1)
proof (induction n arbitrary: k)
  case 0
  show ?case by simp
next
  case (Suc n)
  have kN: "k < N" using Suc.prems by simp
  have uk: "unat (of_nat k :: 64 word) = k" using kN assms(2) by (simp add: unat_of_nat)
  have "(of_nat k :: 64 word) < of_nat N"
    using kN assms(2) by (simp add: word_less_nat_alt unat_of_nat)
  then have here: "store_le m a N v (a + of_nat k) = ucast (drop_bit (8 * k) v)"
    by (simp add: store_le_def uk)
  have "load_le (store_le m a N v) (a + of_nat (Suc k)) n
          = take_bit (8 * n) (drop_bit (8 * Suc k) v)"
    using Suc.prems by (intro Suc.IH) simp
  then have rest: "load_le (store_le m a N v) (a + of_nat k + 1) n
          = take_bit (8 * n) (drop_bit 8 (drop_bit (8 * k) v))"
    by (simp add: add.assoc add.commute[of 1] drop_bit_drop_bit)
  show ?case
    using byte_split[of "drop_bit (8 * k) v" n] by (simp add: here rest)
qed

lemma load_store_same:
  assumes "n \<le> 8"
  shows "load_le (store_le m a n v) a n = take_bit (8 * n) v"
  using load_store_part[of 0 n n m a v] assms by simp

subsection \<open>The layout of the structure\<close>

lemma struct_layout_Cons_eval:
  "struct_layout xlen off ((f, t) # fs) =
     (f, align_up off (sizeof_abi xlen t), sizeof_abi xlen t)
       # struct_layout xlen (align_up off (sizeof_abi xlen t) + sizeof_abi xlen t) fs"
  by (simp add: Let_def)

lemma sizeof_abi_eval:
  "sizeof_abi 64 ulong_t = 8" "sizeof_abi 64 long_t = 8" "sizeof_abi 64 uint_t = 4"
  "sizeof_abi 64 int_t = 4"
  "sizeof_abi 32 ulong_t = 4" "sizeof_abi 32 long_t = 4" "sizeof_abi 32 uint_t = 4"
  "sizeof_abi 32 int_t = 4"
  by (simp_all add: sizeof_abi_def)

lemma unknown_stat_layout_64:
  "struct_layout 64 0 unknown_stat =
     [(abi_dev, 0, 8), (abi_ino, 8, 8), (abi_mode, 16, 4), (abi_nlink, 20, 4),
      (abi_uid, 24, 4), (abi_gid, 28, 4), (abi_rdev, 32, 8), (abi_pad1, 40, 8),
      (abi_size, 48, 8), (abi_blksize, 56, 4), (abi_pad2, 60, 4), (abi_blocks, 64, 8),
      (abi_atime, 72, 8), (abi_atime_nsec, 80, 8), (abi_mtime, 88, 8),
      (abi_mtime_nsec, 96, 8), (abi_ctime, 104, 8), (abi_ctime_nsec, 112, 8),
      (abi_unused4, 120, 4), (abi_unused5, 124, 4)]"
  unfolding unknown_stat_def
  by (simp add: struct_layout_Cons_eval sizeof_abi_eval align_up_def del: struct_layout.simps(2))

lemma unknown_stat_layout_32:
  "struct_layout 32 0 unknown_stat =
     [(abi_dev, 0, 4), (abi_ino, 4, 4), (abi_mode, 8, 4), (abi_nlink, 12, 4),
      (abi_uid, 16, 4), (abi_gid, 20, 4), (abi_rdev, 24, 4), (abi_pad1, 28, 4),
      (abi_size, 32, 4), (abi_blksize, 36, 4), (abi_pad2, 40, 4), (abi_blocks, 44, 4),
      (abi_atime, 48, 4), (abi_atime_nsec, 52, 4), (abi_mtime, 56, 4),
      (abi_mtime_nsec, 60, 4), (abi_ctime, 64, 4), (abi_ctime_nsec, 68, 4),
      (abi_unused4, 72, 4), (abi_unused5, 76, 4)]"
  unfolding unknown_stat_def
  by (simp add: struct_layout_Cons_eval sizeof_abi_eval align_up_def del: struct_layout.simps(2))

lemma offsetof_64:
  "offsetof 64 abi_dev = 0"
  "offsetof 64 abi_ino = 8"
  "offsetof 64 abi_mode = 16"
  "offsetof 64 abi_nlink = 20"
  "offsetof 64 abi_uid = 24"
  "offsetof 64 abi_gid = 28"
  "offsetof 64 abi_rdev = 32"
  "offsetof 64 abi_pad1 = 40"
  "offsetof 64 abi_size = 48"
  "offsetof 64 abi_blksize = 56"
  "offsetof 64 abi_pad2 = 60"
  "offsetof 64 abi_blocks = 64"
  "offsetof 64 abi_atime = 72"
  "offsetof 64 abi_atime_nsec = 80"
  "offsetof 64 abi_mtime = 88"
  "offsetof 64 abi_mtime_nsec = 96"
  "offsetof 64 abi_ctime = 104"
  "offsetof 64 abi_ctime_nsec = 112"
  "offsetof 64 abi_unused4 = 120"
  "offsetof 64 abi_unused5 = 124"
  by (simp_all add: offsetof_def unknown_stat_layout_64)

lemma member_size_64:
  "member_size 64 abi_dev = 8"
  "member_size 64 abi_ino = 8"
  "member_size 64 abi_mode = 4"
  "member_size 64 abi_nlink = 4"
  "member_size 64 abi_uid = 4"
  "member_size 64 abi_gid = 4"
  "member_size 64 abi_rdev = 8"
  "member_size 64 abi_pad1 = 8"
  "member_size 64 abi_size = 8"
  "member_size 64 abi_blksize = 4"
  "member_size 64 abi_pad2 = 4"
  "member_size 64 abi_blocks = 8"
  "member_size 64 abi_atime = 8"
  "member_size 64 abi_atime_nsec = 8"
  "member_size 64 abi_mtime = 8"
  "member_size 64 abi_mtime_nsec = 8"
  "member_size 64 abi_ctime = 8"
  "member_size 64 abi_ctime_nsec = 8"
  "member_size 64 abi_unused4 = 4"
  "member_size 64 abi_unused5 = 4"
  by (simp_all add: member_size_def unknown_stat_layout_64)

lemma offsetof_32:
  "offsetof 32 abi_dev = 0"
  "offsetof 32 abi_ino = 4"
  "offsetof 32 abi_mode = 8"
  "offsetof 32 abi_nlink = 12"
  "offsetof 32 abi_uid = 16"
  "offsetof 32 abi_gid = 20"
  "offsetof 32 abi_rdev = 24"
  "offsetof 32 abi_pad1 = 28"
  "offsetof 32 abi_size = 32"
  "offsetof 32 abi_blksize = 36"
  "offsetof 32 abi_pad2 = 40"
  "offsetof 32 abi_blocks = 44"
  "offsetof 32 abi_atime = 48"
  "offsetof 32 abi_atime_nsec = 52"
  "offsetof 32 abi_mtime = 56"
  "offsetof 32 abi_mtime_nsec = 60"
  "offsetof 32 abi_ctime = 64"
  "offsetof 32 abi_ctime_nsec = 68"
  "offsetof 32 abi_unused4 = 72"
  "offsetof 32 abi_unused5 = 76"
  by (simp_all add: offsetof_def unknown_stat_layout_32)

lemma member_size_32:
  "member_size 32 abi_dev = 4"
  "member_size 32 abi_ino = 4"
  "member_size 32 abi_mode = 4"
  "member_size 32 abi_nlink = 4"
  "member_size 32 abi_uid = 4"
  "member_size 32 abi_gid = 4"
  "member_size 32 abi_rdev = 4"
  "member_size 32 abi_pad1 = 4"
  "member_size 32 abi_size = 4"
  "member_size 32 abi_blksize = 4"
  "member_size 32 abi_pad2 = 4"
  "member_size 32 abi_blocks = 4"
  "member_size 32 abi_atime = 4"
  "member_size 32 abi_atime_nsec = 4"
  "member_size 32 abi_mtime = 4"
  "member_size 32 abi_mtime_nsec = 4"
  "member_size 32 abi_ctime = 4"
  "member_size 32 abi_ctime_nsec = 4"
  "member_size 32 abi_unused4 = 4"
  "member_size 32 abi_unused5 = 4"
  by (simp_all add: member_size_def unknown_stat_layout_32)

lemma load_store_frame_0:
  fixes o1 :: "64 word"
  assumes "nb \<le> unat o1" "unat o1 + n \<le> 2 ^ 64"
  shows "load_le (store_le m addr nb v) (addr + o1) n = load_le m (addr + o1) n"
  using load_store_frame[of o1 n 0 nb m addr v] assms by simp

lemma take_bit_64_word: "take_bit 64 w = w" for w :: "64 word"
  by (simp add: take_bit_word_eq_self)

lemma cvt_unknown_stat_64_loads:
  "load_le (cvt_unknown_stat 64 a hs m) (a + 48) 8 = st_size hs"
  "load_le (cvt_unknown_stat 64 a hs m) (a + 16) 4 = take_bit 32 (st_mode hs)"
  "load_le (cvt_unknown_stat 64 a hs m) (a + 88) 8 = st_mtim_sec hs"
  by (simp_all add: cvt_unknown_stat_def assign_member_def offsetof_64 member_size_64
      load_store_frame load_store_frame_0 load_store_same take_bit_64_word)

lemma cvt_unknown_stat_32_loads:
  "load_le (cvt_unknown_stat 32 a hs m) (a + 32) 4 = take_bit 32 (st_size hs)"
  "load_le (cvt_unknown_stat 32 a hs m) (a + 8) 4 = take_bit 32 (st_mode hs)"
  "load_le (cvt_unknown_stat 32 a hs m) (a + 56) 4 = take_bit 32 (st_mtim_sec hs)"
  by (simp_all add: cvt_unknown_stat_def assign_member_def offsetof_32 member_size_32
      load_store_frame load_store_frame_0 load_store_same)

subsection \<open>The structure after a successful fstat\<close>

lemma sys_fstat_success_mem:
  fixes proc :: "'x::len riscv_processor_base"
  assumes "h_fstat h (events proc) (ireg_int (ireg proc riscv_ireg_a0)) = Success hs"
  shows "mem (sys_fstat h proc)
           = cvt_unknown_stat LENGTH('x) (ucast (ireg proc riscv_ireg_a1)) hs (mem proc)"
  using assms
  by (simp add: sys_fstat_def Let_def set_ireg_def emit_def riscv_ireg_a0_def riscv_ireg_a1_def)

text \<open>
  Claim C8 says that the structure holds the host's size, mode and modification time at
  their offsets for XLEN 32 as for XLEN 64. For XLEN 32 the members \<open>size\<close> and
  \<open>mtime\<close> are 32 bits wide: after a successful \<open>fstat\<close> of a file of 4 GiB the member
  \<open>size\<close> does not hold the host's value (it holds 0).
\<close>

theorem sys_fstat_size_truncated_counterexample:
  "h_fstat host_ok (events example_proc32) (ireg_int (ireg example_proc32 riscv_ireg_a0))
       = Success example_stat
   \<and> load_le (mem (sys_fstat host_ok example_proc32))
         (ucast (ireg example_proc32 riscv_ireg_a1) + of_nat (offsetof 32 abi_size))
         (member_size 32 abi_size)
       \<noteq> st_size example_stat"
proof -
  have s: "h_fstat host_ok (events example_proc32) (ireg_int (ireg example_proc32 riscv_ireg_a0))
             = Success example_stat"
    by (simp add: host_ok_def)
  have "load_le (mem (sys_fstat host_ok example_proc32))
         (ucast (ireg example_proc32 riscv_ireg_a1) + of_nat (offsetof 32 abi_size))
         (member_size 32 abi_size) = take_bit 32 (st_size example_stat)"
    unfolding sys_fstat_success_mem[OF s]
    by (simp add: offsetof_32 member_size_32 cvt_unknown_stat_32_loads)
  then show ?thesis using s by (simp add: example_stat_def)
qed

text \<open>
  Claim C8, amended. The members of the structure lie in the order of the claim, with the
  sizes of the claim and without padding between them: the two lists give each member
  with its offset and size in bytes, for XLEN 64 and for XLEN 32. After a successful
  \<open>fstat\<close> the members \<open>size\<close>, \<open>mode\<close> and \<open>mtime\<close> of the structure at the guest
  address in \<open>a1\<close> hold the host's values cut to the width of the member: all 64 bits
  of size and time and the low 32 bits of the mode for XLEN 64, the low 32 bits of each
  for XLEN 32. So a value that fits its member is there as it is (stated for the size).
\<close>

theorem sys_fstat_stat_layout:
  fixes p64 :: "64 riscv_processor_base" and p32 :: "32 riscv_processor_base"
  shows "struct_layout 64 0 unknown_stat =
           [(abi_dev, 0, 8), (abi_ino, 8, 8), (abi_mode, 16, 4), (abi_nlink, 20, 4),
            (abi_uid, 24, 4), (abi_gid, 28, 4), (abi_rdev, 32, 8), (abi_pad1, 40, 8),
            (abi_size, 48, 8), (abi_blksize, 56, 4), (abi_pad2, 60, 4), (abi_blocks, 64, 8),
            (abi_atime, 72, 8), (abi_atime_nsec, 80, 8), (abi_mtime, 88, 8),
            (abi_mtime_nsec, 96, 8), (abi_ctime, 104, 8), (abi_ctime_nsec, 112, 8),
            (abi_unused4, 120, 4), (abi_unused5, 124, 4)]
       \<and> struct_layout 32 0 unknown_stat =
           [(abi_dev, 0, 4), (abi_ino, 4, 4), (abi_mode, 8, 4), (abi_nlink, 12, 4),
            (abi_uid, 16, 4), (abi_gid, 20, 4), (abi_rdev, 24, 4), (abi_pad1, 28, 4),
            (abi_size, 32, 4), (abi_blksize, 36, 4), (abi_pad2, 40, 4), (abi_blocks, 44, 4),
            (abi_atime, 48, 4), (abi_atime_nsec, 52, 4), (abi_mtime, 56, 4),
            (abi_mtime_nsec, 60, 4), (abi_ctime, 64, 4), (abi_ctime_nsec, 68, 4),
            (abi_unused4, 72, 4), (abi_unused5, 76, 4)]
       \<and> (h_fstat h (events p64) (ireg_int (ireg p64 riscv_ireg_a0)) = Success hs \<longrightarrow>
            load_le (mem (sys_fstat h p64))
              (ireg p64 riscv_ireg_a1 + of_nat (offsetof 64 abi_size)) (member_size 64 abi_size)
              = st_size hs
          \<and> load_le (mem (sys_fstat h p64))
              (ireg p64 riscv_ireg_a1 + of_nat (offsetof 64 abi_mode)) (member_size 64 abi_mode)
              = take_bit 32 (st_mode hs)
          \<and> load_le (mem (sys_fstat h p64))
              (ireg p64 riscv_ireg_a1 + of_nat (offsetof 64 abi_mtime)) (member_size 64 abi_mtime)
              = st_mtim_sec hs)
       \<and> (h_fstat h (events p32) (ireg_int (ireg p32 riscv_ireg_a0)) = Success hs \<longrightarrow>
            load_le (mem (sys_fstat h p32))
              (ucast (ireg p32 riscv_ireg_a1) + of_nat (offsetof 32 abi_size))
              (member_size 32 abi_size)
              = take_bit 32 (st_size hs)
          \<and> load_le (mem (sys_fstat h p32))
              (ucast (ireg p32 riscv_ireg_a1) + of_nat (offsetof 32 abi_mode))
              (member_size 32 abi_mode)
              = take_bit 32 (st_mode hs)
          \<and> load_le (mem (sys_fstat h p32))
              (ucast (ireg p32 riscv_ireg_a1) + of_nat (offsetof 32 abi_mtime))
              (member_size 32 abi_mtime)
              = take_bit 32 (st_mtim_sec hs)
          \<and> (st_size hs < 2 ^ 32 \<longrightarrow>
               load_le (mem (sys_fstat h p32))
                 (ucast (ireg p32 riscv_ireg_a1) + of_nat (offsetof 32 abi_size))
                 (member_size 32 abi_size) = st_size hs))"
proof -
  have a: "h_fstat h (events p64) (ireg_int (ireg p64 riscv_ireg_a0)) = Success hs \<longrightarrow>
            load_le (mem (sys_fstat h p64))
              (ireg p64 riscv_ireg_a1 + of_nat (offsetof 64 abi_size)) (member_size 64 abi_size)
              = st_size hs
          \<and> load_le (mem (sys_fstat h p64))
              (ireg p64 riscv_ireg_a1 + of_nat (offsetof 64 abi_mode)) (member_size 64 abi_mode)
              = take_bit 32 (st_mode hs)
          \<and> load_le (mem (sys_fstat h p64))
              (ireg p64 riscv_ireg_a1 + of_nat (offsetof 64 abi_mtime)) (member_size 64 abi_mtime)
              = st_mtim_sec hs"
  proof
    assume s: "h_fstat h (events p64) (ireg_int (ireg p64 riscv_ireg_a0)) = Success hs"
    show "load_le (mem (sys_fstat h p64))
              (ireg p64 riscv_ireg_a1 + of_nat (offsetof 64 abi_size)) (member_size 64 abi_size)
              = st_size hs
          \<and> load_le (mem (sys_fstat h p64))
              (ireg p64 riscv_ireg_a1 + of_nat (offsetof 64 abi_mode)) (member_size 64 abi_mode)
              = take_bit 32 (st_mode hs)
          \<and> load_le (mem (sys_fstat h p64))
              (ireg p64 riscv_ireg_a1 + of_nat (offsetof 64 abi_mtime)) (member_size 64 abi_mtime)
              = st_mtim_sec hs"
      unfolding sys_fstat_success_mem[OF s]
      by (simp add: offsetof_64 member_size_64 cvt_unknown_stat_64_loads)
  qed
  have b: "h_fstat h (events p32) (ireg_int (ireg p32 riscv_ireg_a0)) = Success hs \<longrightarrow>
            load_le (mem (sys_fstat h p32))
              (ucast (ireg p32 riscv_ireg_a1) + of_nat (offsetof 32 abi_size))
              (member_size 32 abi_size)
              = take_bit 32 (st_size hs)
          \<and> load_le (mem (sys_fstat h p32))
              (ucast (ireg p32 riscv_ireg_a1) + of_nat (offsetof 32 abi_mode))
              (member_size 32 abi_mode)
              = take_bit 32 (st_mode hs)
          \<and> load_le (mem (sys_fstat h p32))
              (ucast (ireg p32 riscv_ireg_a1) + of_nat (offsetof 32 abi_mtime))
              (member_size 32 abi_mtime)
              = take_bit 32 (st_mtim_sec hs)
          \<and> (st_size hs < 2 ^ 32 \<longrightarrow>
               load_le (mem (sys_fstat h p32))
                 (ucast (ireg p32 riscv_ireg_a1) + of_nat (offsetof 32 abi_size))
                 (member_size 32 abi_size) = st_size hs)"
  proof
    assume s: "h_fstat h (events p32) (ireg_int (ireg p32 riscv_ireg_a0)) = Success hs"
    have fit: "st_size hs < 2 ^ 32 \<longrightarrow> take_bit 32 (st_size hs) = st_size hs"
      using less_mask_eq[of "st_size hs" 32] by (simp add: take_bit_eq_mask)
    show "load_le (mem (sys_fstat h p32))
              (ucast (ireg p32 riscv_ireg_a1) + of_nat (offsetof 32 abi_size))
              (member_size 32 abi_size)
              = take_bit 32 (st_size hs)
          \<and> load_le (mem (sys_fstat h p32))
              (ucast (ireg p32 riscv_ireg_a1) + of_nat (offsetof 32 abi_mode))
              (member_size 32 abi_mode)
              = take_bit 32 (st_mode hs)
          \<and> load_le (mem (sys_fstat h p32))
              (ucast (ireg p32 riscv_ireg_a1) + of_nat (offsetof 32 abi_mtime))
              (member_size 32 abi_mtime)
              = take_bit 32 (st_mtim_sec hs)
          \<and> (st_size hs < 2 ^ 32 \<longrightarrow>
               load_le (mem (sys_fstat h p32))
                 (ucast (ireg p32 riscv_ireg_a1) + of_nat (offsetof 32 abi_size))
                 (member_size 32 abi_size) = st_size hs)"
      unfolding sys_fstat_success_mem[OF s] using fit
      by (simp add: offsetof_32 member_size_32 cvt_unknown_stat_32_loads)
  qed
  from a b show ?thesis
    by (simp only: unknown_stat_layout_64 unknown_stat_layout_32 simp_thms)
qed

theorem sys_fstat_stat_layout_witness:
  "load_le (mem (sys_fstat host_ok (example_proc\<lparr>ireg := (\<lambda>r. 0)(riscv_ireg_a1 := 0x20000)\<rparr>)))
       (0x20000 + 48) 8 = 0x100000000
   \<and> load_le (mem (sys_fstat host_ok (example_proc\<lparr>ireg := (\<lambda>r. 0)(riscv_ireg_a1 := 0x20000)\<rparr>)))
       (0x20000 + 16) 4 = 0x81A4
   \<and> load_le (mem (sys_fstat host_ok (example_proc\<lparr>ireg := (\<lambda>r. 0)(riscv_ireg_a1 := 0x20000)\<rparr>)))
       (0x20000 + 88) 8 = 1700000001
   \<and> load_le (mem (sys_fstat host_ok example_proc32)) (0x20000 + 32) 4 = 0
   \<and> load_le (mem (sys_fstat host_ok example_proc32)) (0x20000 + 8) 4 = 0x81A4
   \<and> load_le (mem (sys_fstat host_ok example_proc32)) (0x20000 + 56) 4 = 1700000001"
proof -
  let ?p = "example_proc\<lparr>ireg := (\<lambda>r. 0)(riscv_ireg_a1 := 0x20000)\<rparr>"
  have s64: "h_fstat host_ok (events ?p) (ireg_int (ireg ?p riscv_ireg_a0)) = Success example_stat"
    by (simp add: host_ok_def)
  have s32: "h_fstat host_ok (events example_proc32) (ireg_int (ireg example_proc32 riscv_ireg_a0))
               = Success example_stat"
    by (simp add: host_ok_def)
  have a1: "ireg ?p riscv_ireg_a1 = 0x20000" by simp
  have a2: "(ucast (ireg example_proc32 riscv_ireg_a1) :: 64 word) = 0x20000"
    by (simp add: example_proc32_def riscv_ireg_a0_def riscv_ireg_a1_def)
  have v: "take_bit 32 (st_size example_stat) = 0" "take_bit 32 (st_mode example_stat) = 0x81A4"
    "take_bit 32 (st_mtim_sec example_stat) = 1700000001" "st_size example_stat = 0x100000000"
    "st_mtim_sec example_stat = 1700000001"
    by (simp_all add: example_stat_def)
  show ?thesis
    using sys_fstat_stat_layout[of host_ok ?p example_stat example_proc32] s64 s32
    unfolding a1 a2 v offsetof_64 offsetof_32 member_size_64 member_size_32
    by simp
qed

end
